(* ===== verification/Tangular_Base.thy ===== *)
theory Tangular_Base
  imports Main
begin

text \<open>
  Prelude of the development: the JavaScript string primitives that
  \<open>src/lib/tangular.ts\<close> calls (\<open>substring\<close>, \<open>indexOf\<close>, \<open>split\<close>,
  \<open>startsWith\<close>, \<open>trim\<close>, the regular-expression classes \<open>\s\<close>, \<open>\b\<close>
  and \<open>.\<close>), the error type of the model, and the generic lemmas on them that the
  component theories share. A JavaScript string is modelled as a list of UTF-16 code
  units, each one an Isabelle \<open>char\<close>; code units above 255 are not represented.
\<close>

named_theorems js_simps "evaluation equations of the JavaScript primitives"

subsection \<open>Errors\<close>

text \<open>
  Every exception the source can raise is a value of \<open>err\<close>: a \<open>TypeError\<close> of the
  JavaScript engine (reading a property of \<open>undefined\<close>, calling a non-function) or a
  value thrown by a host helper.
\<close>

datatype err = TypeError string | Thrown string

subsection \<open>Character classes of JavaScript regular expressions\<close>

definition is_js_space :: "char \<Rightarrow> bool" where
  "is_js_space c \<longleftrightarrow> c \<in> set [CHR 0x09, CHR 0x0A, CHR 0x0B, CHR 0x0C, CHR 0x0D, CHR 0x20, CHR 0xA0]"

definition is_line_term :: "char \<Rightarrow> bool" where
  "is_line_term c \<longleftrightarrow> c = CHR 0x0A \<or> c = CHR 0x0D"

definition is_word_char :: "char \<Rightarrow> bool" where
  "is_word_char c \<longleftrightarrow>
     (let n = (of_char c :: nat) in
      (48 \<le> n \<and> n \<le> 57) \<or> (65 \<le> n \<and> n \<le> 90) \<or> (97 \<le> n \<and> n \<le> 122) \<or> n = 95)"

lemma line_term_is_space [intro]: "is_line_term c \<Longrightarrow> is_js_space c"
  by (auto simp: is_line_term_def is_js_space_def)

subsection \<open>String methods\<close>

text \<open>
  \<open>String.prototype.substring(a, b)\<close>: both bounds are clamped to \<open>[0, length]\<close>
  and swapped when the first is the larger.
\<close>

definition js_substring :: "string \<Rightarrow> int \<Rightarrow> int \<Rightarrow> string" where
  "js_substring s a b =
     (let n = int (length s); a' = min (max a 0) n; b' = min (max b 0) n;
          lo = nat (min a' b'); hi = nat (max a' b')
      in take (hi - lo) (drop lo s))"

text \<open>\<open>indexOf(c)\<close>: the first position of \<open>c\<close>, \<open>None\<close> standing for \<open>-1\<close>.\<close>

fun index_of :: "char \<Rightarrow> string \<Rightarrow> nat option" where
  "index_of c [] = None"
| "index_of c (x # xs) = (if x = c then Some 0 else map_option Suc (index_of c xs))"

text \<open>\<open>split(c)\<close> on a one-character separator: never the empty list.\<close>

fun js_split :: "char \<Rightarrow> string \<Rightarrow> string list" where
  "js_split c [] = [[]]"
| "js_split c (x # xs) =
     (if x = c then [] # js_split c xs
      else (case js_split c xs of [] \<Rightarrow> [[x]] | w # ws \<Rightarrow> (x # w) # ws))"

text \<open>\<open>Array.prototype.join(c)\<close> on strings: the inverse of \<open>split(c)\<close>.\<close>

fun join_with :: "char \<Rightarrow> string list \<Rightarrow> string" where
  "join_with c [] = []"
| "join_with c [w] = w"
| "join_with c (w # ws) = w @ c # join_with c ws"

definition starts_with :: "string \<Rightarrow> string \<Rightarrow> bool" where
  "starts_with s p \<longleftrightarrow> take (length p) s = p"

text \<open>\<open>trim()\<close>: white space and line terminators removed at both ends.\<close>

definition js_trim :: "string \<Rightarrow> string" where
  "js_trim s = rev (dropWhile is_js_space (rev (dropWhile is_js_space s)))"

text \<open>Element \<open>i\<close> of an array of strings, \<open>undefined\<close> beyond its end.\<close>

definition nth_opt :: "'a list \<Rightarrow> nat \<Rightarrow> 'a option" where
  "nth_opt xs i = (if i < length xs then Some (xs ! i) else None)"

subsection \<open>Decimal numerals\<close>

fun nat_to_dec :: "nat \<Rightarrow> string" where
  "nat_to_dec n =
     (if n < 10 then [char_of (48 + n)] else nat_to_dec (n div 10) @ [char_of (48 + n mod 10)])"

definition int_to_dec :: "int \<Rightarrow> string" where
  "int_to_dec i = (if i < 0 then CHR ''-'' # nat_to_dec (nat (- i)) else nat_to_dec (nat i))"

text \<open>
  \<open>Number::toString\<close> on the integers of the model: the decimal numeral below
  \<open>10\<^sup>2\<^sup>1\<close>, and from \<open>10\<^sup>2\<^sup>1\<close> on the exponent form \<open>d.ddde+n\<close> of the
  digits without their trailing zeros (\<open>1e+21\<close>, \<open>1.234e+23\<close>).
\<close>

definition exp_form :: "nat \<Rightarrow> string" where
  "exp_form n =
     (let ds = nat_to_dec n; s = rev (dropWhile (\<lambda>c. c = CHR ''0'') (rev ds))
      in (case s of [] \<Rightarrow> [] | d # r \<Rightarrow> d # (if r = [] then [] else CHR ''.'' # r))
         @ ''e+'' @ nat_to_dec (length ds - 1))"

definition num_to_string :: "int \<Rightarrow> string" where
  "num_to_string i =
     (if \<bar>i\<bar> < 10 ^ 21 then int_to_dec i
      else if i < 0 then CHR ''-'' # exp_form (nat (- i)) else exp_form (nat i))"

definition is_digit :: "char \<Rightarrow> bool" where
  "is_digit c \<longleftrightarrow> (let n = (of_char c :: nat) in 48 \<le> n \<and> n \<le> 57)"

definition digit_val :: "char \<Rightarrow> nat" where
  "digit_val c = of_char c - 48"

definition dec_value :: "string \<Rightarrow> nat" where
  "dec_value ds = foldl (\<lambda>n d. 10 * n + digit_val d) 0 ds"

section \<open>Lemmas on the primitives\<close>

lemma js_split_not_Nil [simp]: "js_split c s \<noteq> []"
  by (induction s) (auto split: list.splits)

lemma js_split_Cons_other [js_simps]:
  "x \<noteq> c \<Longrightarrow> js_split c (x # xs) = (x # hd (js_split c xs)) # tl (js_split c xs)"
  by (cases "js_split c xs") auto

text \<open>The pieces of a split never contain the separator, and joining them gives the string back.\<close>

lemma js_split_sep_free: "w \<in> set (js_split c s) \<Longrightarrow> c \<notin> set w"
proof (induction s arbitrary: w)
  case Nil
  then show ?case by simp
next
  case (Cons x xs)
  then show ?case
    by (cases "js_split c xs") (auto split: if_splits)
qed

lemma join_with_Cons_hd [simp]: "join_with c ((x # w) # ws) = x # join_with c (w # ws)"
  by (cases ws) auto

lemma js_split_join [simp]: "join_with c (js_split c s) = s"
proof (induction s)
  case Nil
  then show ?case by simp
next
  case (Cons x xs)
  then show ?case
    by (cases "js_split c xs") auto
qed

lemma js_split_append_sep: "c \<notin> set x \<Longrightarrow> js_split c (x @ c # y) = x # js_split c y"
  by (induction x) (auto simp: js_split_Cons_other)

lemma js_split_no_sep [simp]: "c \<notin> set s \<Longrightarrow> js_split c s = [s]"
  by (induction s) auto

lemma index_of_None [simp]: "index_of c s = None \<longleftrightarrow> c \<notin> set s"
  by (induction s) auto

lemma index_of_notin [simp]: "c \<notin> set s \<Longrightarrow> index_of c s = None"
  by simp

lemma index_of_Some: "index_of c s = Some k \<Longrightarrow> k < length s \<and> s ! k = c \<and> c \<notin> set (take k s)"
  by (induction s arbitrary: k) (auto split: if_splits)

lemma js_substring_take_drop:
  "0 \<le> a \<Longrightarrow> a \<le> b \<Longrightarrow> b \<le> int (length s) \<Longrightarrow>
   js_substring s a b = take (nat b - nat a) (drop (nat a) s)"
  by (simp add: js_substring_def Let_def)

lemma js_substring_whole [simp]: "js_substring s 0 (int (length s)) = s"
  by (simp add: js_substring_def)

lemma js_substring_Nil [simp]: "js_substring [] a b = []"
  by (simp add: js_substring_def)

lemma js_substring_swap: "js_substring s a b = js_substring s b a"
  by (simp add: js_substring_def Let_def min.commute max.commute)

lemma length_js_substring_le: "length (js_substring s a b) \<le> length s"
  by (simp add: js_substring_def Let_def min.coboundedI1)

lemma nth_opt_simps [simp]:
  "nth_opt [] i = None" "nth_opt (x # xs) 0 = Some x" "nth_opt (x # xs) (Suc i) = nth_opt xs i"
  by (simp_all add: nth_opt_def)

lemma js_trim_no_space [simp]: "\<forall>c \<in> set s. \<not> is_js_space c \<Longrightarrow> js_trim s = s"
proof -
  assume h: "\<forall>c \<in> set s. \<not> is_js_space c"
  then have "dropWhile is_js_space s = s" by (cases s) auto
  moreover from h have "dropWhile is_js_space (rev s) = rev s" by (cases "rev s") auto
  ultimately show ?thesis by (simp add: js_trim_def)
qed

text \<open>Reading a string at the position where a known suffix starts.\<close>

lemma drop_Cons_facts:
  "drop i s = x # rest \<Longrightarrow> i < length s \<and> s ! i = x \<and> drop (Suc i) s = rest"
proof -
  assume d: "drop i s = x # rest"
  have i: "i < length s"
  proof (rule ccontr)
    assume "\<not> i < length s"
    then have "drop i s = []" by simp
    with d show False by simp
  qed
  from d have "s ! i = x" by (rule nth_via_drop)
  moreover have "drop (Suc i) s = rest"
    using Cons_nth_drop_Suc [OF i] d by simp
  ultimately show ?thesis using i by simp
qed

lemma drop_append_drop: "drop i s = u @ v \<Longrightarrow> drop (i + length u) s = v"
proof -
  assume "drop i s = u @ v"
  then have "drop (length u) (drop i s) = v" by simp
  then show ?thesis by (simp add: add.commute)
qed

lemma drop_eq_length: "drop i s = u \<Longrightarrow> u \<noteq> [] \<Longrightarrow> length s = i + length u"
proof -
  assume d: "drop i s = u" and u: "u \<noteq> []"
  then have "length s - i = length u" by (metis length_drop)
  moreover from d u have "i < length s" by (cases "i < length s") auto
  ultimately show ?thesis by arith
qed

lemma join_with_Cons2: "ws \<noteq> [] \<Longrightarrow> join_with c (w # ws) = w @ c # join_with c ws"
  by (cases ws) auto

lemma starts_with_append [simp]: "starts_with (p @ s) p"
  by (simp add: starts_with_def)

lemma nth_opt_Some: "nth_opt xs i = Some x \<Longrightarrow> i < length xs \<and> xs ! i = x"
  by (induction xs arbitrary: i) (auto simp: nth_opt_def split: if_splits)

text \<open>Decimal numerals are made of digits and a sign.\<close>

lemma nat_to_dec_digits: "c \<in> set (nat_to_dec n) \<Longrightarrow> is_digit c"
proof (induction n rule: nat_to_dec.induct)
  case (1 n)
  have d: "is_digit (char_of (48 + k))" if "k < 10" for k :: nat
    using that by (simp add: is_digit_def Let_def of_char_of)
  show ?case
  proof (cases "n < 10")
    case True
    with "1.prems" d show ?thesis by (subst (asm) nat_to_dec.simps) (simp del: nat_to_dec.simps)
  next
    case False
    with "1.prems" "1.IH" d [of "n mod 10"] show ?thesis
      by (subst (asm) nat_to_dec.simps) (auto simp del: nat_to_dec.simps)
  qed
qed

lemma num_to_string_small [simp]: "\<bar>i\<bar> < 10 ^ 21 \<Longrightarrow> num_to_string i = int_to_dec i"
  by (simp add: num_to_string_def)

lemma int_to_dec_plain: "c \<in> set (int_to_dec i) \<Longrightarrow> is_digit c \<or> c = CHR ''-''"
  by (auto simp del: nat_to_dec.simps simp: int_to_dec_def dest: nat_to_dec_digits split: if_splits)

lemma exp_form_plain: "c \<in> set (exp_form n) \<Longrightarrow> is_digit c \<or> c \<in> set ''.e+''"
proof -
  assume c: "c \<in> set (exp_form n)"
  let ?ds = "nat_to_dec n"
  let ?s = "rev (dropWhile (\<lambda>c. c = CHR ''0'') (rev ?ds))"
  have sub: "set ?s \<subseteq> set ?ds" by (auto simp del: nat_to_dec.simps dest: set_dropWhileD)
  have g: "set (case xs of [] \<Rightarrow> [] | d # r \<Rightarrow> d # (if r = [] then [] else CHR ''.'' # r))
             \<subseteq> insert CHR ''.'' (set xs)" for xs :: string
    by (cases xs) auto
  have e: "exp_form n = (case ?s of [] \<Rightarrow> [] | d # r \<Rightarrow> d # (if r = [] then [] else CHR ''.'' # r))
                        @ ''e+'' @ nat_to_dec (length ?ds - 1)"
    by (simp only: exp_form_def Let_def)
  have "set (exp_form n) \<subseteq> insert CHR ''.'' (set ?s) \<union> set ''e+'' \<union> set (nat_to_dec (length ?ds - 1))"
    unfolding e set_append using g [of ?s] by blast
  with c sub show ?thesis by (auto dest: nat_to_dec_digits simp del: nat_to_dec.simps)
qed

lemma num_to_string_plain: "c \<in> set (num_to_string i) \<Longrightarrow> is_digit c \<or> c \<in> set ''-.e+''"
  by (auto simp: num_to_string_def simp del: nat_to_dec.simps dest: int_to_dec_plain exp_form_plain
           split: if_splits)

end
