(* ===== verification/Directive_Scanner.thy ===== *)
theory Directive_Scanner
  imports Tangular_Base
begin

text \<open>
  The text-level passes of \<open>src/lib/tangular.ts\<close>: the whitespace normalisers
  \<open>_trim\<close> and \<open>_unspace\<close>, the directive scanner of \<open>compile\<close> (the iterator of
  \<open>template.matchAll(/(?={{[^{])(.*?)(?<=}})/gm)\<close>, written as a scan over
  positions that follows the regular expression engine: lookahead at the start
  position, lazy extension up to the first position preceded by \<open>}}\<close>, no line
  terminator inside, and a step of one position after an empty match), the test
  of the reserved keywords \<open>/^(if|else|fi|foreach|for|end|continue|break)\<backslash>b/gm\<close>,
  and the post-processing \<open>.replace(/^\<backslash>s*[\<backslash>r\<backslash>n]/gm, '')\<close> of the rendered
  output. The scan of \<open>_trim\<close> is shown equal to a run-by-run reference definition.
\<close>

section \<open>Whitespace normalisation\<close>

text \<open>
  \<open>_trim\<close>: \<open>str.replace(/(\<backslash>s\<backslash>t|\<backslash>t\<backslash>s|\<backslash>s\<backslash>s|\<backslash>t\<backslash>t)+/gm, ' ').trim()\<close>.
  Since \<open>\<backslash>t\<close> is a \<open>\<backslash>s\<close>, one repetition of the group consumes exactly two
  whitespace characters, and the greedy \<open>+\<close> consumes as many pairs as follow:
  \<open>collapse\<close> scans for a pair, and \<open>collapse_run\<close> consumes the further pairs of
  the same match.
\<close>

fun collapse :: "string \<Rightarrow> string" and collapse_run :: "string \<Rightarrow> string" where
  "collapse (a # b # r) =
     (if is_js_space a \<and> is_js_space b then CHR '' '' # collapse_run r else a # collapse (b # r))"
| "collapse r = r"
| "collapse_run (a # b # r) =
     (if is_js_space a \<and> is_js_space b then collapse_run r else collapse (a # b # r))"
| "collapse_run r = collapse r"

definition tangular_trim :: "string \<Rightarrow> string" where
  "tangular_trim s = js_trim (collapse s)"

text \<open>
  The reference reading of \<open>_trim\<close>'s replacement, run by run: a maximal run of
  whitespace of length \<open>n \<ge> 2\<close> becomes one space followed, for odd \<open>n\<close>, by the
  run's last character; a single whitespace character stays.
\<close>

function collapse_ref :: "string \<Rightarrow> string" where
  "collapse_ref [] = []"
| "collapse_ref (c # s) =
     (if is_js_space c then
        (let w = takeWhile is_js_space (c # s) in
         (if length w < 2 then w else CHR '' '' # (if odd (length w) then [last w] else [])) @
         collapse_ref (dropWhile is_js_space s))
      else c # collapse_ref s)"
  by pat_completeness auto
termination
  by (relation "measure length") (auto simp: le_imp_less_Suc length_dropWhile_le)

text \<open>\<open>_unspace\<close>: \<open>str.replace(/\<backslash>s/gm, '')\<close>.\<close>

definition unspace :: "string \<Rightarrow> string" where
  "unspace s = filter (\<lambda>c. \<not> is_js_space c) s"

section \<open>The directive scanner\<close>

text \<open>The lookahead \<open>(?={{[^{])\<close> at position \<open>p\<close>.\<close>

definition look_ok :: "string \<Rightarrow> nat \<Rightarrow> bool" where
  "look_ok s p = (case drop p s of
      a # b # c # _ \<Rightarrow> a = CHR ''{'' \<and> b = CHR ''{'' \<and> c \<noteq> CHR ''{''
    | _ \<Rightarrow> False)"

text \<open>The lookbehind \<open>(?<=}})\<close> at position \<open>e\<close>.\<close>

definition ends_close :: "string \<Rightarrow> nat \<Rightarrow> bool" where
  "ends_close s e \<longleftrightarrow>
     2 \<le> e \<and> e \<le> length s \<and> s ! (e - 2) = CHR ''}'' \<and> s ! (e - 1) = CHR ''}''"

text \<open>
  The lazy group \<open>(.*?)\<close> from position \<open>e\<close>: the first end position whose two
  preceding characters are \<open>}}\<close>, extending over characters other than line
  terminators (\<open>.\<close> does not match them).
\<close>

function find_close :: "string \<Rightarrow> nat \<Rightarrow> nat option" where
  "find_close s e =
     (if ends_close s e then Some e
      else if e < length s \<and> \<not> is_line_term (s ! e) then find_close s (Suc e)
      else None)"
  by pat_completeness auto
termination by (relation "measure (\<lambda>(s, e). length s - e)") auto

text \<open>
  The matches of \<open>matchAll\<close> from \<open>lastIndex = p\<close>: each is its index and its
  text (\<open>element.value.index\<close>, \<open>element.value[0]\<close>). After an empty match the
  iterator advances \<open>lastIndex\<close> by one.
\<close>

function match_all :: "string \<Rightarrow> nat \<Rightarrow> (nat \<times> string) list" where
  "match_all s p =
     (if length s \<le> p then []
      else if look_ok s p then
        (case find_close s p of
           Some e \<Rightarrow> (p, take (e - p) (drop p s)) # match_all s (if e = p then Suc p else e)
         | None \<Rightarrow> match_all s (Suc p))
      else match_all s (Suc p))"
  by pat_completeness auto
termination
proof (relation "measure (\<lambda>(s, p). length s - p)")
  have ge: "find_close s e = Some e' \<Longrightarrow> e \<le> e' \<and> e' \<le> length s" for s e e'
  proof (induction s e rule: find_close.induct)
    case (1 s e)
    then show ?case
      by (cases "ends_close s e")
         (auto simp: ends_close_def find_close.simps [of s e] split: if_splits)
  qed
  show "wf (measure (\<lambda>(s, p). length s - p))" by simp
  fix s p e
  assume "\<not> length s \<le> p" "find_close s p = Some e"
  then show "((s, if e = p then Suc p else e), s, p) \<in> measure (\<lambda>(s, p). length s - p)"
    using ge [of s p e] by auto
qed auto

declare find_close.simps [simp del] match_all.simps [simp del]

definition scan_directives :: "string \<Rightarrow> (nat \<times> string) list" where
  "scan_directives s = match_all s 0"

section \<open>Reserved keywords\<close>

definition private_keywords :: "string list" where
  "private_keywords = [''if'', ''else'', ''fi'', ''foreach'', ''for'', ''end'', ''continue'', ''break'']"

text \<open>One alternative followed by the word boundary \<open>\<backslash>b\<close> (every keyword ends in a word character).\<close>

definition key_at :: "string \<Rightarrow> bool" where
  "key_at w \<longleftrightarrow> (\<exists>k \<in> set private_keywords. starts_with w k \<and>
      (case drop (length k) w of [] \<Rightarrow> True | c # _ \<Rightarrow> \<not> is_word_char c))"

text \<open>\<open>sentence.match(this._privateKeys)\<close>: a keyword at the start of some line (\<open>^\<close> with the \<open>m\<close> flag).\<close>

fun key_at_line :: "bool \<Rightarrow> string \<Rightarrow> bool" where
  "key_at_line b [] = False"
| "key_at_line b (c # s) = ((b \<and> key_at (c # s)) \<or> key_at_line (is_line_term c) s)"

definition has_private_key :: "string \<Rightarrow> bool" where
  "has_private_key s = key_at_line True s"

section \<open>Blank-line removal\<close>

text \<open>The length of the longest prefix of a whitespace run that ends in a line terminator.\<close>

fun last_lt :: "string \<Rightarrow> nat option" where
  "last_lt [] = None"
| "last_lt (c # w) = (case last_lt w of Some n \<Rightarrow> Some (Suc n)
                      | None \<Rightarrow> if is_line_term c then Some 1 else None)"

text \<open>
  \<open>.replace(/^\<backslash>s*[\<backslash>r\<backslash>n]/gm, '')\<close>: at a line start (the flag \<open>b\<close>), the greedy
  \<open>\<backslash>s*\<close> backtracks to the last line terminator of the whitespace run, and the
  match up to it is removed; scanning resumes after it, again at a line start.
\<close>

fun strip_bl :: "bool \<Rightarrow> string \<Rightarrow> string" where
  "strip_bl b [] = []"
| "strip_bl b (c # s) =
     (case (if b then last_lt (takeWhile is_js_space (c # s)) else None) of
        Some n \<Rightarrow> strip_bl True (drop (n - 1) s)
      | None \<Rightarrow> c # strip_bl (is_line_term c) s)"

definition strip_blank_lines :: "string \<Rightarrow> string" where
  "strip_blank_lines s = strip_bl True s"

section \<open>Properties of the scanner\<close>

lemma find_close_Some:
  "find_close s e = Some e' \<Longrightarrow>
   e \<le> e' \<and> e' \<le> length s \<and> ends_close s e' \<and> (\<forall>k. e \<le> k \<and> k < e' \<longrightarrow> \<not> is_line_term (s ! k))"
proof (induction s e rule: find_close.induct)
  case (1 s e)
  show ?case
  proof (cases "ends_close s e")
    case True
    with "1.prems" show ?thesis by (auto simp: ends_close_def find_close.simps [of s e])
  next
    case False
    with "1.prems" have c: "e < length s \<and> \<not> is_line_term (s ! e)" "find_close s (Suc e) = Some e'"
      by (auto simp: find_close.simps [of s e] split: if_splits)
    note ih = "1.IH" [OF False c]
    have "\<not> is_line_term (s ! k)" if "e \<le> k" "k < e'" for k
    proof (cases "k = e")
      case True
      with c(1) show ?thesis by simp
    next
      case False
      with that ih show ?thesis by simp
    qed
    with ih show ?thesis by auto
  qed
qed

lemma find_close_open:
  assumes "look_ok s p" "find_close s p = Some e" "e \<noteq> p"
  shows "p + 4 \<le> e"
proof -
  obtain c r where d: "drop p s = CHR ''{'' # CHR ''{'' # c # r" "c \<noteq> CHR ''{''"
    using assms(1) by (auto simp: look_ok_def split: list.splits)
  have n: "s ! p = CHR ''{''" "s ! Suc p = CHR ''{''"
    using d(1) by (auto dest!: drop_Cons_facts)
  have ec: "ends_close s e" "p \<le> e" using find_close_Some [OF assms(2)] by auto
  have "e \<noteq> Suc p" using ec(1) n(1) by (auto simp: ends_close_def)
  moreover have "e \<noteq> Suc (Suc p)" using ec(1) n(2) by (auto simp: ends_close_def)
  moreover have "e \<noteq> Suc (Suc (Suc p))" using ec(1) n(2) by (auto simp: ends_close_def)
  ultimately show ?thesis using ec(2) assms(3) by linarith
qed

lemma match_all_unfold:
  "p < length s \<Longrightarrow> match_all s p =
     (if look_ok s p then
        (case find_close s p of
           Some e \<Rightarrow> (p, take (e - p) (drop p s)) # match_all s (if e = p then Suc p else e)
         | None \<Rightarrow> match_all s (Suc p))
      else match_all s (Suc p))"
  by (simp add: match_all.simps [of s p])

lemma match_all_end: "length s \<le> p \<Longrightarrow> match_all s p = []"
  by (simp add: match_all.simps [of s p])

lemma match_all_ge: "(j, n) \<in> set (match_all s p) \<Longrightarrow> p \<le> j"
proof (induction s p rule: match_all.induct)
  case (1 s p)
  show ?case
  proof (cases "length s \<le> p")
    case True
    with "1.prems" show ?thesis by (simp add: match_all_end)
  next
    case False
    note u = match_all_unfold [OF not_le_imp_less [OF False]]
    show ?thesis
    proof (cases "look_ok s p")
      case False
      with "1.prems" u "1.IH" \<open>\<not> length s \<le> p\<close> show ?thesis by fastforce
    next
      case True
      show ?thesis
      proof (cases "find_close s p")
        case None
        with "1.prems" u "1.IH" True \<open>\<not> length s \<le> p\<close> show ?thesis by fastforce
      next
        case (Some e)
        with find_close_Some [OF Some] "1.prems" u "1.IH" True \<open>\<not> length s \<le> p\<close>
        show ?thesis by (fastforce split: if_splits)
      qed
    qed
  qed
qed

lemma match_all_no_brace: "CHR ''{'' \<notin> set s \<Longrightarrow> match_all s p = []"
proof (induction s p rule: match_all.induct)
  case (1 s p)
  show ?case
  proof (cases "length s \<le> p")
    case True
    then show ?thesis by (simp add: match_all_end)
  next
    case False
    have "\<not> look_ok s p"
    proof
      assume "look_ok s p"
      then obtain r where "drop p s = CHR ''{'' # r" by (auto simp: look_ok_def split: list.splits)
      then have "CHR ''{'' \<in> set s" by (metis in_set_dropD list.set_intros(1))
      with "1.prems" show False by simp
    qed
    with False "1.IH" "1.prems" show ?thesis by (simp add: match_all_unfold)
  qed
qed

lemma drop_last_two: "2 \<le> length xs \<Longrightarrow> drop (length xs - 2) xs = [xs ! (length xs - 2), xs ! (length xs - 1)]"
  by (rule nth_equalityI) (auto simp: nth_Cons' numeral_2_eq_2 less_Suc_eq)

lemma match_text:
  assumes "look_ok s p" "find_close s p = Some e" "e \<noteq> p"
  defines "m \<equiv> take (e - p) (drop p s)"
  shows "4 \<le> length m \<and> take 2 m = ''{{'' \<and> drop (length m - 2) m = ''}}'' \<and>
         (\<forall>c \<in> set m. \<not> is_line_term c)"
proof -
  have fc: "p \<le> e" "e \<le> length s" "ends_close s e" "\<forall>k. p \<le> k \<and> k < e \<longrightarrow> \<not> is_line_term (s ! k)"
    using find_close_Some [OF assms(2)] by auto
  have e4: "p + 4 \<le> e" by (rule find_close_open [OF assms(1-3)])
  have len: "length m = e - p" using fc by (simp add: m_def)
  have nth: "m ! k = s ! (p + k)" if "k < e - p" for k
    using that fc by (simp add: m_def)
  obtain c r where d: "drop p s = CHR ''{'' # CHR ''{'' # c # r"
    using assms(1) by (auto simp: look_ok_def split: list.splits)
  have "take 2 m = take 2 (drop p s)" using e4 by (simp add: m_def min_def)
  then have t2: "take 2 m = ''{{''" using d by (simp add: numeral_2_eq_2)
  have "drop (length m - 2) m = [s ! (e - 2), s ! (e - 1)]"
    using drop_last_two [of m] len e4 nth [of "e - p - 2"] nth [of "e - p - 1"] by simp
  then have d2: "drop (length m - 2) m = ''}}''" using fc(3) by (simp add: ends_close_def)
  have "\<not> is_line_term c" if "c \<in> set m" for c
  proof -
    obtain k where "k < length m" "c = m ! k" using \<open>c \<in> set m\<close> by (auto simp: in_set_conv_nth)
    with len nth fc(4) show ?thesis by auto
  qed
  with len e4 t2 d2 show ?thesis by auto
qed

lemma match_all_props:
  "sorted_wrt (\<lambda>(i, m) (j, n). i + length m \<le> j \<and> i < j) (match_all s p) \<and>
   (\<forall>(i, m) \<in> set (match_all s p). i + length m \<le> length s \<and> m = take (length m) (drop i s) \<and>
      (m \<noteq> [] \<longrightarrow> 4 \<le> length m \<and> take 2 m = ''{{'' \<and> drop (length m - 2) m = ''}}'' \<and>
                  (\<forall>c \<in> set m. \<not> is_line_term c)))"
proof (induction s p rule: match_all.induct)
  case (1 s p)
  show ?case
  proof (cases "length s \<le> p")
    case True
    then show ?thesis by (simp add: match_all_end)
  next
    case False
    note u = match_all_unfold [OF not_le_imp_less [OF False]]
    show ?thesis
    proof (cases "look_ok s p")
      case False
      with u "1.IH" \<open>\<not> length s \<le> p\<close> show ?thesis by simp
    next
      case True
      show ?thesis
      proof (cases "find_close s p")
        case None
        with u "1.IH" True \<open>\<not> length s \<le> p\<close> show ?thesis by simp
      next
        case (Some e)
        define q where "q = (if e = p then Suc p else e)"
        have ih: "sorted_wrt (\<lambda>(i, m) (j, n). i + length m \<le> j \<and> i < j) (match_all s q) \<and>
          (\<forall>(i, m) \<in> set (match_all s q). i + length m \<le> length s \<and> m = take (length m) (drop i s) \<and>
            (m \<noteq> [] \<longrightarrow> 4 \<le> length m \<and> take 2 m = ''{{'' \<and> drop (length m - 2) m = ''}}'' \<and>
                  (\<forall>c \<in> set m. \<not> is_line_term c)))"
          using "1.IH"(2) [OF False True Some] unfolding q_def by simp
        have fc: "p \<le> e" "e \<le> length s" using find_close_Some [OF Some] by auto
        have eq: "match_all s p = (p, take (e - p) (drop p s)) # match_all s q"
          using u True Some by (simp add: q_def)
        have later: "p + (e - p) \<le> j \<and> p < j" if "(j, n) \<in> set (match_all s q)" for j n
          using match_all_ge [OF that] fc by (auto simp: q_def split: if_splits)
        have head: "take (e - p) (drop p s) \<noteq> [] \<longrightarrow>
            4 \<le> length (take (e - p) (drop p s)) \<and> take 2 (take (e - p) (drop p s)) = ''{{'' \<and>
            drop (length (take (e - p) (drop p s)) - 2) (take (e - p) (drop p s)) = ''}}'' \<and>
            (\<forall>c \<in> set (take (e - p) (drop p s)). \<not> is_line_term c)"
          using match_text [OF True Some] fc by (cases "e = p") auto
        have len: "length (take (e - p) (drop p s)) = e - p" using fc by simp
        show ?thesis
          unfolding eq using ih later head fc len by auto
      qed
    qed
  qed
qed

text \<open>
  C18: the matches of the directive scanner come in increasing, non-overlapping order;
  each is the text of the template at its index, and each non-empty one starts with
  \<open>{{\<close>, ends with \<open>}}\<close>, is at least four characters long and spans no line break.
\<close>

theorem scan_matches_wellformed:
  "sorted_wrt (\<lambda>(i, m) (j, n). i + length m \<le> j \<and> i < j) (scan_directives s) \<and>
   (\<forall>(i, m) \<in> set (scan_directives s). i + length m \<le> length s \<and> m = take (length m) (drop i s) \<and>
      (m \<noteq> [] \<longrightarrow> 4 \<le> length m \<and> take 2 m = ''{{'' \<and> drop (length m - 2) m = ''}}'' \<and>
                  (\<forall>c \<in> set m. \<not> is_line_term c)))"
  unfolding scan_directives_def by (rule match_all_props)

theorem scan_matches_wellformed_witness:
  "scan_directives ''x{{a}}y'' = [(1, ''{{a}}'')] \<and>
   1 + length ''{{a}}'' \<le> length ''x{{a}}y'' \<and> ''{{a}}'' = take 5 (drop 1 ''x{{a}}y'') \<and>
   take 2 ''{{a}}'' = ''{{'' \<and> drop 3 ''{{a}}'' = ''}}''"
proof -
  have s: "scan_directives ''x{{a}}y'' = [(1, ''{{a}}'')]"
    by (simp add: scan_directives_def match_all.simps [of "''x{{a}}y''"] find_close.simps
                  look_ok_def ends_close_def is_line_term_def)
  have "(1, ''{{a}}'') \<in> set (scan_directives ''x{{a}}y'')" using s by simp
  then show ?thesis using scan_matches_wellformed [of "''x{{a}}y''"] s by fastforce
qed

lemma look_ok_Suc: "look_ok s p \<Longrightarrow> \<not> look_ok s (Suc p) \<and> Suc p < length s"
proof -
  assume "look_ok s p"
  then obtain c r where d: "drop p s = CHR ''{'' # CHR ''{'' # c # r" "c \<noteq> CHR ''{''"
    by (auto simp: look_ok_def split: list.splits)
  then have "drop (Suc p) s = CHR ''{'' # c # r" "Suc p < length s"
    using drop_Cons_facts [OF d(1)] drop_Cons_facts [of "Suc p" s] by (auto simp: drop_Suc drop_tl)
  with d(2) show ?thesis by (simp add: look_ok_def split: list.split)
qed

text \<open>
  C19: where a directive ends right before another \<open>{{\<close>, the scanner yields an empty
  match there (the lookbehind sees the closing \<open>}}\<close> of the previous one) and resumes
  two positions later, so the second directive is never matched.
\<close>

theorem adjacent_directive_empty_match:
  assumes "ends_close s p" "look_ok s p"
  shows "match_all s p = (p, []) # match_all s (Suc (Suc p))"
proof -
  have fc: "find_close s p = Some p" using assms(1) by (simp add: find_close.simps [of s p])
  have l: "\<not> look_ok s (Suc p)" "Suc p < length s" using look_ok_Suc [OF assms(2)] by auto
  have "match_all s p = (p, []) # match_all s (Suc p)"
    using match_all_unfold [of p s] l(2) assms(2) fc by simp
  also have "match_all s (Suc p) = match_all s (Suc (Suc p))"
    using match_all_unfold [OF l(2)] l(1) by simp
  finally show ?thesis .
qed

theorem adjacent_directive_empty_match_witness:
  "scan_directives ''{{a}}{{b}}'' = [(0, ''{{a}}''), (5, [])]"
proof -
  have "match_all ''{{a}}{{b}}'' 5 = (5, []) # match_all ''{{a}}{{b}}'' (Suc (Suc 5))"
    by (rule adjacent_directive_empty_match) (simp_all add: ends_close_def look_ok_def)
  then show ?thesis
    by (simp add: scan_directives_def match_all.simps [of "''{{a}}{{b}}''"] find_close.simps
                  look_ok_def ends_close_def is_line_term_def)
qed

lemma collapse_run_spaces:
  "\<forall>x \<in> set w. is_js_space x \<Longrightarrow> \<not> is_js_space c \<Longrightarrow>
   collapse_run (w @ c # r) = (if odd (length w) then [last w] else []) @ collapse (c # r)"
proof (induction w rule: induct_list012)
  case 1
  then show ?case by (cases r) auto
next
  case (2 x)
  then show ?case by simp
next
  case (3 x y w)
  then show ?case by (cases w) auto
qed

text \<open>
  A run of two or more whitespace characters followed by a non-space becomes one space
  followed, when the run has odd length, by its last character.
\<close>

lemma trim_run_parity:
  assumes "\<forall>x \<in> set w. is_js_space x" "2 \<le> length w" "\<not> is_js_space c"
  shows "collapse (w @ c # r) = CHR '' '' # (if odd (length w) then [last w] else []) @ collapse (c # r)"
proof -
  obtain x y w' where w: "w = x # y # w'"
  proof (cases w)
    case (Cons x t)
    with assms(2) that show ?thesis by (cases t) auto
  qed (use assms(2) in simp)
  have "collapse (w @ c # r) = CHR '' '' # collapse_run (w' @ c # r)"
    using w assms(1) by simp
  also have "\<dots> = CHR '' '' # (if odd (length w') then [last w'] else []) @ collapse (c # r)"
    using collapse_run_spaces [of w' c r] assms(1,3) w by simp
  also have "\<dots> = CHR '' '' # (if odd (length w) then [last w] else []) @ collapse (c # r)"
    using w by (cases "w' = []") auto
  finally show ?thesis .
qed

lemma trim_three_spaces:
  "tangular_trim ''a   b'' = ''a  b''"
proof -
  have "collapse (''   '' @ CHR ''b'' # []) = CHR '' '' # [CHR '' ''] @ collapse ''b''"
    using trim_run_parity [of "''   ''" "CHR ''b''" "[]"] by (simp add: is_js_space_def)
  then show ?thesis by (simp add: tangular_trim_def js_trim_def is_js_space_def)
qed

lemma collapse_run_all_spaces:
  "\<forall>x \<in> set w. is_js_space x \<Longrightarrow> collapse_run w = (if odd (length w) then [last w] else [])"
  by (induction w rule: induct_list012) auto

lemma collapse_run_gen:
  assumes "\<forall>x \<in> set w. is_js_space x" "r = [] \<or> \<not> is_js_space (hd r)"
  shows "collapse_run (w @ r) = (if odd (length w) then [last w] else []) @ collapse r"
proof (cases r)
  case Nil
  then show ?thesis using collapse_run_all_spaces [OF assms(1)] by simp
next
  case (Cons c r')
  then show ?thesis using collapse_run_spaces [OF assms(1), of c r'] assms(2) by simp
qed

lemma collapse_non_space: "\<not> is_js_space c \<Longrightarrow> collapse (c # s) = c # collapse s"
  by (cases s) auto

text \<open>
  C20: the scan that models \<open>_trim\<close>'s regular expression is equivalent to the
  run-by-run reference: runs of whitespace are not collapsed to a single space, the
  pairs the group consumes leave the last character of an odd run behind.
\<close>

theorem collapse_equiv_runs: "collapse s = collapse_ref s"
proof (induction s rule: collapse_ref.induct)
  case 1
  then show ?case by simp
next
  case (2 c s)
  show ?case
  proof (cases "is_js_space c")
    case False
    with "2.IH"(2) show ?thesis by (simp add: collapse_non_space)
  next
    case True
    define w where "w = takeWhile is_js_space (c # s)"
    define r where "r = dropWhile is_js_space s"
    have split: "c # s = w @ r" using True by (simp add: w_def r_def)
    have ws: "\<forall>x \<in> set w. is_js_space x" unfolding w_def by (meson set_takeWhileD)
    have rs: "r = [] \<or> \<not> is_js_space (hd r)" unfolding r_def using hd_dropWhile [of is_js_space s] by blast
    have ih: "collapse r = collapse_ref r" using "2.IH"(1) True by (simp add: w_def r_def)
    have ref: "collapse_ref (c # s) =
        (if length w < 2 then w else CHR '' '' # (if odd (length w) then [last w] else [])) @ collapse_ref r"
      using True by (simp add: w_def r_def Let_def)
    show ?thesis
    proof (cases "length w < 2")
      case True
      then have w: "w = [c]" using \<open>is_js_space c\<close> by (cases s) (auto simp: w_def)
      with split have "s = r" by simp
      then show ?thesis using w ref ih rs \<open>length w < 2\<close> by (cases r) (auto simp: collapse_non_space \<open>is_js_space c\<close>)
    next
      case False
      then obtain a y w' where w0: "w = a # y # w'" by (cases w; cases "tl w") auto
      with split have w: "w = c # y # w'" by simp
      have "collapse (c # s) = CHR '' '' # collapse_run (w' @ r)"
        using split w ws by simp
      also have "\<dots> = CHR '' '' # (if odd (length w') then [last w'] else []) @ collapse r"
        using collapse_run_gen [of w' r] ws rs w by simp
      also have "\<dots> = CHR '' '' # (if odd (length w) then [last w] else []) @ collapse r"
        using w by (cases "w' = []") auto
      finally show ?thesis using ref False ih by simp
    qed
  qed
qed

text \<open>
  C21: the blank-line removal deletes the line feed of every CR LF line ending that
  follows a non-blank line, leaving a bare carriage return.
\<close>

theorem crlf_loses_lf:
  assumes "\<not> is_js_space c" "\<not> is_js_space d"
  shows "strip_bl b (c # CHR 0x0D # CHR 0x0A # d # r) = c # CHR 0x0D # strip_bl True (d # r)"
  using assms by (cases b) (simp_all add: is_line_term_def is_js_space_def)

theorem crlf_loses_lf_witness:
  "strip_blank_lines (''a'' @ [CHR 0x0D, CHR 0x0A] @ ''b'') = ''a'' @ [CHR 0x0D] @ ''b''"
  using crlf_loses_lf [of "CHR ''a''" "CHR ''b''" True "[]"]
  by (simp add: strip_blank_lines_def is_js_space_def is_line_term_def)

end
