(* ===== verification/Cond_Parser.thy ===== *)
theory Cond_Parser
  imports Tangular_Base
begin

text \<open>
  The Expression Parser: \<open>Tangular._processConditionBuild\<close>, the recursive-descent
  parser of an \<open>if\<close> header into a tree of Conditions, Instructions and strings, and
  \<open>Tangular._processForeachBuild\<close>, the parser of a \<open>foreach\<close> header. The
  parser's loop resumes after a parenthesised sub-expression at the \<open>index\<close> that the
  sub-result carries; a string result has no index, and the loop then stops (\<open>NaN\<close>).
  The index can lie before the current position, so the loop need not terminate: the
  parser is a \<^theory_text>\<open>partial_function\<close> in the option monad, \<open>None\<close> standing for
  divergence.
\<close>

text \<open>\<open>enum TangularOperator\<close>.\<close>

datatype operator =
    OpNone | OpAnd | OpOr | OpLt | OpGt | OpEq | OpEqEq | OpEqEqEq
  | OpLe | OpGe | OpNot | OpNe | OpNeEq | OpIn | OpOf

text \<open>\<open>interface TangularInstruction\<close>; \<open>None\<close> is an absent (undefined) operand.\<close>

record instruction =
  leftValue :: "string option"
  rightValue :: "string option"
  ioperator :: operator
  iindex :: nat

text \<open>
  The values a Condition holds (\<open>TangularCondition | TangularInstruction | string\<close>),
  and \<open>undefined\<close>, which a Condition's array holds at run time after
  \<open>keys[2]\<close> of a short \<open>foreach\<close> header or a \<open>shift()\<close> of an empty array.
\<close>

datatype cnode =
    CUndef
  | CStr string
  | CInstr instruction
  | CCond operator "cnode list" nat

text \<open>The local state of one call: \<open>wordTmp\<close>, \<open>instructionObject\<close>, \<open>conditionsObject\<close>.\<close>

record pstate =
  word :: string
  instr :: "instruction option"
  cvals :: "cnode list"
  cop :: operator
  cidx :: nat

definition pstate_init :: pstate where
  "pstate_init = \<lparr>word = [], instr = None, cvals = [], cop = OpNone, cidx = 0\<rparr>"

definition op_of_char :: "char \<Rightarrow> operator" where
  "op_of_char c =
     (if c = CHR ''&'' then OpAnd else if c = CHR ''|'' then OpOr
      else if c = CHR ''<'' then OpLt else if c = CHR ''>'' then OpGt
      else if c = CHR ''='' then OpEq else if c = CHR ''!'' then OpNot else OpNone)"

text \<open>The operator update of lines 169-175: the promotion depends on the current operator only.\<close>

definition promote :: "operator \<Rightarrow> char \<Rightarrow> operator" where
  "promote op c =
     (if op = OpEqEq then OpEqEqEq
      else if op = OpEq then OpEqEq
      else if op = OpLt then OpLe
      else if op = OpGt then OpGe
      else if op = OpNe then OpNeEq
      else if op = OpNot then OpNe
      else op_of_char c)"

text \<open>\<open>instructionObject.leftValue || wordTmp\<close>.\<close>

definition left_or :: "string option \<Rightarrow> string \<Rightarrow> string" where
  "left_or l w = (case l of Some v \<Rightarrow> if v \<noteq> [] then v else w | None \<Rightarrow> w)"

text \<open>\<open>(<TangularCondition>r)?.index\<close>: a string has no index.\<close>

fun node_index :: "cnode \<Rightarrow> nat option" where
  "node_index (CInstr io) = Some (iindex io)"
| "node_index (CCond _ _ k) = Some k"
| "node_index _ = None"

text \<open>The common tail of the \<open>)\<close> case and of the code after the loop.\<close>

definition finish :: "pstate \<Rightarrow> cnode" where
  "finish st =
     (if word st \<noteq> [] then
        (let v = (case instr st of
                    Some io \<Rightarrow> CInstr (io\<lparr>rightValue := Some (word st)\<rparr>)
                  | None \<Rightarrow> CStr (word st))
         in if cop st = OpNone then v else CCond (cop st) (cvals st @ [v]) (cidx st))
      else CCond (cop st) (cvals st) (cidx st))"

definition is_cmp_char :: "char \<Rightarrow> bool" where
  "is_cmp_char c \<longleftrightarrow> c = CHR ''<'' \<or> c = CHR ''>'' \<or> c = CHR ''='' \<or> c = CHR ''!''"

partial_function (option) cond_build :: "string \<Rightarrow> nat \<Rightarrow> pstate \<Rightarrow> cnode option" where
  "cond_build s i st0 =
     (if i < length s then
        (let st = st0\<lparr>cidx := i\<rparr>; c = s ! i in
         if c = CHR '')'' then Some (finish st)
         else if c = CHR ''('' then
           Option.bind (cond_build s (Suc i) pstate_init) (\<lambda>r.
             (let st' = st\<lparr>cvals := cvals st @ [r], word := []\<rparr> in
              case node_index r of
                None \<Rightarrow> Some (finish st')
              | Some j \<Rightarrow> cond_build s (Suc j) st'))
         else if c = CHR ''&'' \<or> c = CHR ''|'' then
           (let vs = (if word st \<noteq> [] then cvals st @ [CStr (word st)] else cvals st);
                opr = op_of_char c;
                vs' = (if cop st = OpNone \<or> cop st = opr then vs else [CCond (cop st) vs (cidx st)])
            in cond_build s (Suc i) (st\<lparr>cvals := vs', cop := opr, cidx := i, word := []\<rparr>))
         else if is_cmp_char c then
           (let io = (case instr st of Some io \<Rightarrow> io
                      | None \<Rightarrow> \<lparr>leftValue = None, rightValue = None, ioperator = OpNone, iindex = i\<rparr>);
                io' = io\<lparr>leftValue := Some (left_or (leftValue io) (word st)),
                         ioperator := promote (ioperator io) c\<rparr>
            in cond_build s (Suc i) (st\<lparr>instr := Some io', word := []\<rparr>))
         else cond_build s (Suc i) (st\<lparr>word := word st @ [c]\<rparr>))
      else Some (finish st0))"

text \<open>\<open>_processConditionBuild(conditions)\<close>, called with position 0.\<close>

definition process_condition_build :: "string \<Rightarrow> cnode option" where
  "process_condition_build s = cond_build s 0 pstate_init"

text \<open>\<open>_processForeachBuild\<close>: tokens 0 and 2 of the header split on one space.\<close>

definition foreach_build :: "string \<Rightarrow> cnode" where
  "foreach_build conds =
     (let keys = js_split CHR '' '' conds in
      CCond OpIn [CStr (hd keys), (case nth_opt keys 2 of Some k \<Rightarrow> CStr k | None \<Rightarrow> CUndef)] 0)"

definition plain_char :: "char \<Rightarrow> bool" where
  "plain_char c \<longleftrightarrow> c \<noteq> CHR ''('' \<and> c \<noteq> CHR '')'' \<and> c \<noteq> CHR ''&'' \<and> c \<noteq> CHR ''|'' \<and> \<not> is_cmp_char c"

text \<open>The spellings of the comparison operators in the specification, and the operator each denotes.\<close>

definition spelling_table :: "(string \<times> operator) list" where
  "spelling_table =
     [(''='', OpEq), (''=='', OpEqEq), (''==='', OpEqEqEq), (''<'', OpLt), (''<='', OpLe),
      (''>'', OpGt), (''>='', OpGe), (''!'', OpNot), (''!='', OpNe), (''!=='', OpNeEq)]"

definition cmp_spellings :: "string list" where
  "cmp_spellings = map fst spelling_table"

definition spelled :: "string \<Rightarrow> operator" where
  "spelled ops = (case map_of spelling_table ops of Some op \<Rightarrow> op | None \<Rightarrow> OpNone)"

text \<open>
  The specification's reading of a chain of words joined by \<open>&\<close> and \<open>|\<close>: no
  precedence, each operator applied to the tree built so far, a run of the same operator
  kept flat. Trees are compared with their position indices erased (\<open>strip_idx\<close>);
  \<open>chain_text\<close> writes a chain out.
\<close>

fun strip_idx :: "cnode \<Rightarrow> cnode" where
  "strip_idx (CCond op vs k) = CCond op (map strip_idx vs) 0"
| "strip_idx (CInstr io) = CInstr (io\<lparr>iindex := 0\<rparr>)"
| "strip_idx c = c"

fun join_node :: "cnode \<Rightarrow> operator \<Rightarrow> cnode \<Rightarrow> cnode" where
  "join_node (CCond op' vs k) op x = (if op' = op then CCond op (vs @ [x]) 0 else CCond op [CCond op' vs k, x] 0)"
| "join_node v op x = CCond op [v, x] 0"

fun lnest :: "cnode \<Rightarrow> (operator \<times> cnode) list \<Rightarrow> cnode" where
  "lnest acc [] = acc"
| "lnest acc ((op, x) # ps) = lnest (join_node acc op x) ps"

definition chain_text :: "string \<Rightarrow> (char \<times> string) list \<Rightarrow> string" where
  "chain_text w ps = w @ concat (map (\<lambda>(c, w'). c # w') ps)"

section \<open>One step of the loop\<close>

lemma cond_build_end: "length s \<le> i \<Longrightarrow> cond_build s i st = Some (finish st)"
  by (subst cond_build.simps) simp

lemma cond_build_close:
  "i < length s \<Longrightarrow> s ! i = CHR '')'' \<Longrightarrow> cond_build s i st = Some (finish (st\<lparr>cidx := i\<rparr>))"
  by (subst cond_build.simps) simp

lemma cond_build_open:
  "i < length s \<Longrightarrow> s ! i = CHR ''('' \<Longrightarrow> cond_build s i st =
     Option.bind (cond_build s (Suc i) pstate_init) (\<lambda>r.
       (let st' = st\<lparr>cidx := i, cvals := cvals st @ [r], word := []\<rparr> in
        case node_index r of None \<Rightarrow> Some (finish st') | Some j \<Rightarrow> cond_build s (Suc j) st'))"
  by (subst cond_build.simps) simp

lemma cond_build_andor:
  "i < length s \<Longrightarrow> s ! i = c \<Longrightarrow> c = CHR ''&'' \<or> c = CHR ''|'' \<Longrightarrow> cond_build s i st =
     cond_build s (Suc i)
       (st\<lparr>cvals := (let vs = (if word st \<noteq> [] then cvals st @ [CStr (word st)] else cvals st) in
                       if cop st = OpNone \<or> cop st = op_of_char c then vs else [CCond (cop st) vs i]),
           cop := op_of_char c, cidx := i, word := []\<rparr>)"
proof -
  assume a: "i < length s" "s ! i = c" "c = CHR ''&'' \<or> c = CHR ''|''"
  from a(3) show ?thesis
  proof
    assume "c = CHR ''&''"
    with a(1,2) show ?thesis by (subst cond_build.simps) (simp add: Let_def is_cmp_char_def)
  next
    assume "c = CHR ''|''"
    with a(1,2) show ?thesis by (subst cond_build.simps) (simp add: Let_def is_cmp_char_def)
  qed
qed

lemma cond_build_cmp:
  "i < length s \<Longrightarrow> s ! i = c \<Longrightarrow> is_cmp_char c \<Longrightarrow> cond_build s i st =
     cond_build s (Suc i)
       (st\<lparr>cidx := i,
           instr := Some (let io = (case instr st of Some io \<Rightarrow> io
                          | None \<Rightarrow> \<lparr>leftValue = None, rightValue = None, ioperator = OpNone, iindex = i\<rparr>)
                          in io\<lparr>leftValue := Some (left_or (leftValue io) (word st)),
                                ioperator := promote (ioperator io) c\<rparr>),
           word := []\<rparr>)"
proof -
  assume a: "i < length s" "s ! i = c" "is_cmp_char c"
  then have "c \<noteq> CHR '')'' \<and> c \<noteq> CHR ''('' \<and> c \<noteq> CHR ''&'' \<and> c \<noteq> CHR ''|''"
    by (auto simp: is_cmp_char_def)
  with a show ?thesis by (subst cond_build.simps) (simp add: Let_def)
qed

lemma cond_build_plain:
  "i < length s \<Longrightarrow> plain_char (s ! i) \<Longrightarrow>
   cond_build s i st = cond_build s (Suc i) (st\<lparr>cidx := i, word := word st @ [s ! i]\<rparr>)"
  by (subst cond_build.simps) (auto simp: plain_char_def)

text \<open>A run of plain characters accumulates into \<open>wordTmp\<close>.\<close>

lemma cond_build_word:
  "drop i s = w @ rest \<Longrightarrow> \<forall>c \<in> set w. plain_char c \<Longrightarrow> w \<noteq> [] \<Longrightarrow>
   cond_build s i \<lparr>word = wl, instr = ins, cvals = vs, cop = op, cidx = k\<rparr> =
   cond_build s (i + length w) \<lparr>word = wl @ w, instr = ins, cvals = vs, cop = op, cidx = i + length w - 1\<rparr>"
proof (induction w arbitrary: i wl k)
  case Nil
  then show ?case by simp
next
  case (Cons c w)
  from drop_Cons_facts [of i s c "w @ rest"] Cons.prems(1)
  have i: "i < length s" and si: "s ! i = c" and d: "drop (Suc i) s = w @ rest" by auto
  show ?case
  proof (cases "w = []")
    case True
    with i si Cons.prems(2) show ?thesis by (simp add: cond_build_plain)
  next
    case False
    with Cons.IH [OF d, of "wl @ [c]" i] Cons.prems(2) i si show ?thesis
      by (simp add: cond_build_plain)
  qed
qed


text \<open>A run of comparison characters opens one Instruction and promotes its operator.\<close>

lemma cond_build_cmp_more:
  "drop i s = ops @ rest \<Longrightarrow> \<forall>c \<in> set ops. is_cmp_char c \<Longrightarrow> ops \<noteq> [] \<Longrightarrow>
   cond_build s i \<lparr>word = [], instr = Some \<lparr>leftValue = Some wl, rightValue = None, ioperator = op, iindex = n\<rparr>,
                   cvals = vs, cop = cp, cidx = k\<rparr> =
   cond_build s (i + length ops)
     \<lparr>word = [], instr = Some \<lparr>leftValue = Some wl, rightValue = None, ioperator = foldl promote op ops, iindex = n\<rparr>,
      cvals = vs, cop = cp, cidx = i + length ops - 1\<rparr>"
proof (induction ops arbitrary: i op k)
  case Nil
  then show ?case by simp
next
  case (Cons c ops)
  from drop_Cons_facts [of i s c "ops @ rest"] Cons.prems(1)
  have i: "i < length s" and si: "s ! i = c" and d: "drop (Suc i) s = ops @ rest" by auto
  have c: "is_cmp_char c" using Cons.prems(2) by simp
  have lo: "left_or (Some wl) [] = wl" by (simp add: left_or_def)
  show ?case
  proof (cases "ops = []")
    case True
    with cond_build_cmp [OF i si c] lo show ?thesis by simp
  next
    case False
    with cond_build_cmp [OF i si c] lo Cons.IH [where i = "Suc i" and op = "promote op c" and k = i, OF d _ False] Cons.prems(2)
    show ?thesis by simp
  qed
qed

lemma cond_build_cmp_run:
  "drop i s = ops @ rest \<Longrightarrow> \<forall>c \<in> set ops. is_cmp_char c \<Longrightarrow> ops \<noteq> [] \<Longrightarrow>
   cond_build s i \<lparr>word = wl, instr = None, cvals = vs, cop = cp, cidx = k\<rparr> =
   cond_build s (i + length ops)
     \<lparr>word = [], instr = Some \<lparr>leftValue = Some wl, rightValue = None, ioperator = foldl promote OpNone ops, iindex = i\<rparr>,
      cvals = vs, cop = cp, cidx = i + length ops - 1\<rparr>"
proof -
  assume d: "drop i s = ops @ rest" and cmp: "\<forall>c \<in> set ops. is_cmp_char c" and ne: "ops \<noteq> []"
  obtain c cs where ops: "ops = c # cs" using ne by (cases ops) auto
  from drop_Cons_facts [of i s c "cs @ rest"] d ops
  have i: "i < length s" and si: "s ! i = c" and d': "drop (Suc i) s = cs @ rest" by auto
  have c: "is_cmp_char c" using cmp ops by simp
  then have pc: "promote OpNone c = op_of_char c" by (auto simp: promote_def is_cmp_char_def op_of_char_def)
  have lo: "left_or None wl = wl" by (simp add: left_or_def)
  show ?thesis
  proof (cases "cs = []")
    case True
    with cond_build_cmp [OF i si c] ops pc lo show ?thesis by simp
  next
    case False
    with cond_build_cmp [OF i si c] cond_build_cmp_more [where op = "op_of_char c" and wl = wl and n = i and vs = vs and cp = cp and k = i, OF d' _ False] cmp ops pc lo
    show ?thesis by simp
  qed
qed

text \<open>A chain of words joined by one logical operator accumulates into one flat list.\<close>

lemma cond_build_chain:
  assumes c: "c = CHR ''&'' \<or> c = CHR ''|''"
  shows "ws \<noteq> [] \<Longrightarrow> \<forall>w \<in> set ws. w \<noteq> [] \<and> (\<forall>x \<in> set w. plain_char x) \<Longrightarrow>
    drop i s = join_with c ws \<Longrightarrow> cp = OpNone \<or> cp = op_of_char c \<Longrightarrow>
    cond_build s i \<lparr>word = [], instr = None, cvals = vs, cop = cp, cidx = k\<rparr> =
    Some (finish \<lparr>word = last ws, instr = None, cvals = vs @ map CStr (butlast ws),
       cop = (if length ws = 1 then cp else op_of_char c), cidx = length s - 1\<rparr>)"
proof (induction ws arbitrary: i vs cp k)
  case Nil
  then show ?case by simp
next
  case (Cons w ws)
  show ?case
  proof (cases "ws = []")
    case True
    with Cons.prems have d: "drop i s = w @ []" and w: "w \<noteq> []" "\<forall>x \<in> set w. plain_char x" by auto
    have len: "length s = i + length w" using drop_eq_length [of i s w] d w by simp
    show ?thesis
      using cond_build_word [where wl = "[]" and ins = None and vs = vs and op = cp and k = k, OF d w(2) w(1)] cond_build_end [of s "i + length w"] len True
      by simp
  next
    case False
    with Cons.prems have d: "drop i s = w @ c # join_with c ws" and w: "w \<noteq> []" "\<forall>x \<in> set w. plain_char x"
      by (auto simp: join_with_Cons2)
    let ?j = "i + length w"
    from drop_Cons_facts [OF drop_append_drop [OF d]]
    have j: "?j < length s" "s ! ?j = c" "drop (Suc ?j) s = join_with c ws" by auto
    have s1: "cond_build s i \<lparr>word = [], instr = None, cvals = vs, cop = cp, cidx = k\<rparr> =
              cond_build s ?j \<lparr>word = w, instr = None, cvals = vs, cop = cp, cidx = ?j - 1\<rparr>"
      using cond_build_word [OF d w(2) w(1)] by simp
    have s2: "cond_build s ?j \<lparr>word = w, instr = None, cvals = vs, cop = cp, cidx = ?j - 1\<rparr> =
              cond_build s (Suc ?j) \<lparr>word = [], instr = None, cvals = vs @ [CStr w], cop = op_of_char c, cidx = ?j\<rparr>"
      using cond_build_andor [OF j(1) j(2) c] w Cons.prems(4) by (auto simp: Let_def)
    have s3: "cond_build s (Suc ?j) \<lparr>word = [], instr = None, cvals = vs @ [CStr w], cop = op_of_char c, cidx = ?j\<rparr> =
       Some (finish \<lparr>word = last ws, instr = None, cvals = (vs @ [CStr w]) @ map CStr (butlast ws),
         cop = (if length ws = 1 then op_of_char c else op_of_char c), cidx = length s - 1\<rparr>)"
      using Cons.IH [OF False _ j(3)] Cons.prems(2) by simp
    show ?thesis using s1 s2 s3 False by simp
  qed
qed

text \<open>A chain of plain words and logical operators, parsed from any loop state.\<close>

lemma chain_text_Cons: "chain_text w ((c, w') # ps) = w @ c # chain_text w' ps"
  by (simp add: chain_text_def)

lemma strip_finish:
  "w \<noteq> [] \<Longrightarrow> (cp = OpNone \<longrightarrow> vs = []) \<Longrightarrow>
   strip_idx (finish \<lparr>word = w, instr = None, cvals = vs, cop = cp, cidx = k\<rparr>) =
   (if cp = OpNone then CStr w else CCond cp (map strip_idx vs @ [CStr w]) 0)"
  by (simp add: finish_def)

lemma chain_parse:
  "\<forall>(c, w') \<in> set ps. (c = CHR ''&'' \<or> c = CHR ''|'') \<and> w' \<noteq> [] \<and> (\<forall>x \<in> set w'. plain_char x) \<Longrightarrow>
   w \<noteq> [] \<Longrightarrow> \<forall>x \<in> set w. plain_char x \<Longrightarrow> (cp = OpNone \<longrightarrow> vs = []) \<Longrightarrow>
   drop i s = chain_text w ps \<Longrightarrow>
   \<exists>r. cond_build s i \<lparr>word = [], instr = None, cvals = vs, cop = cp, cidx = k\<rparr> = Some r \<and>
       strip_idx r = lnest (if cp = OpNone then CStr w else CCond cp (map strip_idx vs @ [CStr w]) 0)
                           (map (\<lambda>(c, w'). (op_of_char c, CStr w')) ps)"
proof (induction ps arbitrary: w i vs cp k)
  case Nil
  have d: "drop i s = w @ []" using Nil.prems(5) by (simp add: chain_text_def)
  have len: "length s = i + length w" using drop_eq_length [of i s w] d Nil.prems(2) by simp
  show ?case
    using cond_build_word [where wl = "[]" and ins = None and vs = vs and op = cp and k = k, OF d Nil.prems(3) Nil.prems(2)]
          cond_build_end [of s "i + length w"] len strip_finish [OF Nil.prems(2,4)]
    by simp
next
  case (Cons p ps)
  obtain c w' where p: "p = (c, w')" by fastforce
  have c: "c = CHR ''&'' \<or> c = CHR ''|''" and w': "w' \<noteq> []" "\<forall>x \<in> set w'. plain_char x"
    using Cons.prems(1) p by auto
  have d: "drop i s = w @ c # chain_text w' ps" using Cons.prems(5) p by (simp add: chain_text_Cons)
  let ?j = "i + length w"
  from drop_Cons_facts [OF drop_append_drop [OF d]]
  have j: "?j < length s" "s ! ?j = c" "drop (Suc ?j) s = chain_text w' ps" by auto
  define vs' where "vs' = (if cp = OpNone \<or> cp = op_of_char c then vs @ [CStr w] else [CCond cp (vs @ [CStr w]) ?j])"
  have s1: "cond_build s i \<lparr>word = [], instr = None, cvals = vs, cop = cp, cidx = k\<rparr> =
            cond_build s (Suc ?j) \<lparr>word = [], instr = None, cvals = vs', cop = op_of_char c, cidx = ?j\<rparr>"
    using cond_build_word [OF d Cons.prems(3) Cons.prems(2), of "[]" None vs cp k]
          cond_build_andor [OF j(1) j(2) c] Cons.prems(2) by (simp add: vs'_def Let_def)
  have oc: "op_of_char c \<noteq> OpNone" using c by (auto simp: op_of_char_def)
  obtain r where r: "cond_build s (Suc ?j) \<lparr>word = [], instr = None, cvals = vs', cop = op_of_char c, cidx = ?j\<rparr> = Some r"
    and sr: "strip_idx r = lnest (CCond (op_of_char c) (map strip_idx vs' @ [CStr w']) 0)
                                  (map (\<lambda>(c, w'). (op_of_char c, CStr w')) ps)"
    using Cons.IH [OF _ w'(1) w'(2) _ j(3), where vs = vs' and cp = "op_of_char c" and k = "i + length w"]
          Cons.prems(1) oc by auto
  have jn: "CCond (op_of_char c) (map strip_idx vs' @ [CStr w']) 0 =
            join_node (if cp = OpNone then CStr w else CCond cp (map strip_idx vs @ [CStr w]) 0) (op_of_char c) (CStr w')"
    using Cons.prems(4) by (auto simp: vs'_def)
  show ?case using s1 r sr jn p by simp
qed

section \<open>Termination\<close>

text \<open>
  The positions a parse state refers to: its open Instruction and its Condition's index.
  The index of a finished result is one of them.
\<close>

definition refs_from :: "nat \<Rightarrow> pstate \<Rightarrow> bool" where
  "refs_from p st \<longleftrightarrow> (\<forall>io. instr st = Some io \<longrightarrow> p \<le> iindex io)"

lemma finish_index: "refs_from p st \<Longrightarrow> p \<le> cidx st \<Longrightarrow> node_index (finish st) = Some j \<Longrightarrow> p \<le> j"
  by (auto simp: finish_def refs_from_def Let_def split: option.splits if_splits)

definition ends_open :: "string \<Rightarrow> bool" where
  "ends_open s \<longleftrightarrow> s \<noteq> [] \<and> last s = CHR ''(''"

lemma open_not_last:
  "\<not> ends_open s \<Longrightarrow> i < length s \<Longrightarrow> s ! i = CHR ''('' \<Longrightarrow> Suc i < length s"
proof (rule ccontr)
  assume a: "\<not> ends_open s" "i < length s" "s ! i = CHR ''(''" "\<not> Suc i < length s"
  then have i: "i = length s - 1" and ne: "s \<noteq> []" by auto
  with a(3) have "last s = CHR ''(''" by (simp add: last_conv_nth)
  with a(1) ne show False by (simp add: ends_open_def)
qed

text \<open>
  The loop makes progress as long as no sub-parse starts at the end of the string: a
  sub-result's index is then at least the position the sub-parse started from.
\<close>

lemma cond_build_total_gen:
  assumes ends: "\<not> ends_open s"
  shows "p \<le> i \<Longrightarrow> refs_from p st \<Longrightarrow> i < length s \<or> p \<le> cidx st \<Longrightarrow>
         \<exists>r. cond_build s i st = Some r \<and> (\<forall>j. node_index r = Some j \<longrightarrow> p \<le> j)"
proof (induction "length s - i" arbitrary: i st p rule: less_induct)
  case less
  show ?case
  proof (cases "i < length s")
    case False
    with less.prems show ?thesis by (auto simp: cond_build_end dest: finish_index)
  next
    case True
    let ?st = "st\<lparr>cidx := i\<rparr>"
    have st: "refs_from p ?st" "p \<le> cidx ?st" using less.prems by (simp_all add: refs_from_def)
    consider (cls) "s ! i = CHR '')''" | (opn) "s ! i = CHR ''(''"
      | (andor) "s ! i = CHR ''&'' \<or> s ! i = CHR ''|''" | (cmp) "is_cmp_char (s ! i)"
      | (pln) "plain_char (s ! i)"
      by (auto simp: plain_char_def)
    then show ?thesis
    proof cases
      case cls
      with True st show ?thesis by (auto simp: cond_build_close dest: finish_index)
    next
      case opn
      have si: "Suc i < length s" using open_not_last [OF ends True opn] .
      have dec: "length s - Suc i < length s - i" using True by arith
      have "refs_from (Suc i) pstate_init" by (simp add: refs_from_def pstate_init_def)
      then obtain r where r: "cond_build s (Suc i) pstate_init = Some r"
        and ri: "\<forall>j. node_index r = Some j \<longrightarrow> Suc i \<le> j"
        using less.hyps [OF dec, of "Suc i" pstate_init] si by blast
      let ?st' = "st\<lparr>cidx := i, cvals := cvals st @ [r], word := []\<rparr>"
      have st': "refs_from p ?st'" "p \<le> cidx ?st'" using less.prems by (simp_all add: refs_from_def)
      show ?thesis
      proof (cases "node_index r")
        case None
        with True opn r st' show ?thesis by (auto simp: cond_build_open dest: finish_index)
      next
        case (Some j)
        with ri have "Suc i \<le> j" by simp
        then have dec': "length s - Suc j < length s - i" and pj: "p \<le> Suc j"
          using True less.prems(1) by arith+
        obtain r' where "cond_build s (Suc j) ?st' = Some r' \<and> (\<forall>j'. node_index r' = Some j' \<longrightarrow> p \<le> j')"
          using less.hyps [OF dec' pj st'(1)] st'(2) by blast
        with True opn r Some show ?thesis by (auto simp: cond_build_open)
      qed
    next
      case andor
      have "\<exists>r. cond_build s (Suc i) (st\<lparr>cvals := (let vs = (if word st \<noteq> [] then cvals st @ [CStr (word st)] else cvals st) in
                       if cop st = OpNone \<or> cop st = op_of_char (s ! i) then vs else [CCond (cop st) vs i]),
           cop := op_of_char (s ! i), cidx := i, word := []\<rparr>) = Some r \<and> (\<forall>j. node_index r = Some j \<longrightarrow> p \<le> j)"
        by (rule less.hyps) (use True less.prems in \<open>auto simp: refs_from_def\<close>)
      with True andor show ?thesis by (simp add: cond_build_andor [OF True refl andor])
    next
      case cmp
      have "\<exists>r. cond_build s (Suc i)
       (st\<lparr>cidx := i,
           instr := Some (let io = (case instr st of Some io \<Rightarrow> io
                          | None \<Rightarrow> \<lparr>leftValue = None, rightValue = None, ioperator = OpNone, iindex = i\<rparr>)
                          in io\<lparr>leftValue := Some (left_or (leftValue io) (word st)),
                                ioperator := promote (ioperator io) (s ! i)\<rparr>),
           word := []\<rparr>) = Some r \<and> (\<forall>j. node_index r = Some j \<longrightarrow> p \<le> j)"
        by (rule less.hyps) (use True less.prems in \<open>auto simp: refs_from_def Let_def split: option.splits\<close>)
      then show ?thesis by (simp add: cond_build_cmp [OF True refl cmp])
    next
      case pln
      have "\<exists>r. cond_build s (Suc i) (st\<lparr>cidx := i, word := word st @ [s ! i]\<rparr>) = Some r \<and>
                (\<forall>j. node_index r = Some j \<longrightarrow> p \<le> j)"
        by (rule less.hyps) (use True less.prems in \<open>auto simp: refs_from_def\<close>)
      then show ?thesis by (simp add: cond_build_plain [OF True pln])
    qed
  qed
qed

text \<open>
  C7: the parser of an \<open>if\<close> header returns a result on every header that does not end
  with an opening parenthesis.
\<close>

theorem condition_build_terminates:
  "\<not> ends_open s \<Longrightarrow> \<exists>r. process_condition_build s = Some r"
  using cond_build_total_gen [of s 0 0 pstate_init]
  by (auto simp: process_condition_build_def refs_from_def pstate_init_def)

theorem condition_build_terminates_witness:
  "\<not> ends_open ''(a|b)&c'' \<and> (\<exists>r. process_condition_build ''(a|b)&c'' = Some r)"
  using condition_build_terminates [of "''(a|b)&c''"] by (simp add: ends_open_def)

section \<open>Properties of the Expression Parser\<close>

lemma pstate_init_record: "pstate_init = \<lparr>word = [], instr = None, cvals = [], cop = OpNone, cidx = 0\<rparr>"
  by (simp add: pstate_init_def)

lemma plain_ne_cmp: "plain_char x \<Longrightarrow> \<not> is_cmp_char x"
  by (simp add: plain_char_def)

text \<open>A comparison of two words, with any run of comparison characters as its operator.\<close>

lemma comparison_parse:
  assumes ops: "ops \<noteq> []" "\<forall>c \<in> set ops. is_cmp_char c"
    and lr: "l \<noteq> []" "r \<noteq> []" "\<forall>x \<in> set l. plain_char x" "\<forall>x \<in> set r. plain_char x"
  shows "process_condition_build (l @ ops @ r) =
    Some (CInstr \<lparr>leftValue = Some l, rightValue = Some r, ioperator = foldl promote OpNone ops,
                  iindex = length l\<rparr>)"
proof -
  let ?s = "l @ ops @ r"
  have d1: "drop 0 ?s = l @ (ops @ r)" by simp
  have d2: "drop (length l) ?s = ops @ r" by simp
  have d3: "drop (length l + length ops) ?s = r @ []" by simp
  have "process_condition_build ?s =
        cond_build ?s (length l) \<lparr>word = l, instr = None, cvals = [], cop = OpNone, cidx = length l - 1\<rparr>"
    using cond_build_word [OF d1 lr(3) lr(1), of "[]" None "[]" OpNone 0]
    by (simp add: process_condition_build_def pstate_init_record)
  also have "\<dots> = cond_build ?s (length l + length ops)
      \<lparr>word = [], instr = Some \<lparr>leftValue = Some l, rightValue = None, ioperator = foldl promote OpNone ops,
         iindex = length l\<rparr>, cvals = [], cop = OpNone, cidx = length l + length ops - 1\<rparr>"
    by (rule cond_build_cmp_run [OF d2 ops(2) ops(1)])
  also have "\<dots> = cond_build ?s (length l + length ops + length r)
      \<lparr>word = r, instr = Some \<lparr>leftValue = Some l, rightValue = None, ioperator = foldl promote OpNone ops,
         iindex = length l\<rparr>, cvals = [], cop = OpNone, cidx = length l + length ops + length r - 1\<rparr>"
    using cond_build_word [OF d3 lr(4) lr(2)] by simp
  also have "\<dots> = Some (CInstr \<lparr>leftValue = Some l, rightValue = Some r, ioperator = foldl promote OpNone ops,
                  iindex = length l\<rparr>)"
    using lr(2) by (simp add: cond_build_end finish_def)
  finally show ?thesis .
qed

lemma spelling_table_ok:
  "\<forall>p \<in> set spelling_table. fst p \<noteq> [] \<and> (\<forall>c \<in> set (fst p). is_cmp_char c) \<and>
     foldl promote OpNone (fst p) = snd p"
  by (simp add: spelling_table_def is_cmp_char_def promote_def op_of_char_def)

lemma spelling_table_distinct: "distinct (map fst spelling_table)"
  by (simp add: spelling_table_def)

lemma spellings_cmp: "ops \<in> set cmp_spellings \<Longrightarrow> ops \<noteq> [] \<and> (\<forall>c \<in> set ops. is_cmp_char c)"
  using spelling_table_ok by (auto simp: cmp_spellings_def)

lemma spellings_promote: "ops \<in> set cmp_spellings \<Longrightarrow> foldl promote OpNone ops = spelled ops"
proof -
  assume "ops \<in> set cmp_spellings"
  then obtain op where p: "(ops, op) \<in> set spelling_table" by (auto simp: cmp_spellings_def)
  then have "map_of spelling_table ops = Some op" by (simp add: spelling_table_distinct)
  with p spelling_table_ok show ?thesis by (auto simp: spelled_def)
qed

text \<open>
  C8: a comparison \<open>l op r\<close> of two words, for every operator spelling of the
  specification, parses into one Instruction with both operands and that operator.
\<close>

theorem comparison_parsed:
  assumes "ops \<in> set cmp_spellings" "l \<noteq> []" "r \<noteq> []"
    and "\<forall>x \<in> set l. plain_char x" "\<forall>x \<in> set r. plain_char x"
  shows "process_condition_build (l @ ops @ r) =
    Some (CInstr \<lparr>leftValue = Some l, rightValue = Some r, ioperator = spelled ops, iindex = length l\<rparr>)"
  using comparison_parse [of ops l r] spellings_cmp [OF assms(1)] spellings_promote [OF assms(1)] assms(2-5)
  by simp

theorem comparison_parsed_witness:
  "process_condition_build ''a===b'' =
    Some (CInstr \<lparr>leftValue = Some ''a'', rightValue = Some ''b'', ioperator = OpEqEqEq, iindex = 1\<rparr>)"
  using comparison_parsed [of "''===''" "''a''" "''b''"]
  by (simp add: cmp_spellings_def spelling_table_def spelled_def plain_char_def is_cmp_char_def)

text \<open>
  C9: the operator of a comparison does not depend on its second character: the
  promotion table looks at the current operator only, so \<open>a=<b\<close> parses as \<open>a==b\<close>.
\<close>

theorem second_operator_char_ignored:
  assumes "is_cmp_char c1" "is_cmp_char c2" "is_cmp_char c3" "l \<noteq> []" "r \<noteq> []"
    and "\<forall>x \<in> set l. plain_char x" "\<forall>x \<in> set r. plain_char x"
  shows "process_condition_build (l @ [c1, c2] @ r) = process_condition_build (l @ [c1, c3] @ r)"
proof -
  have "foldl promote OpNone [c1, c2] = foldl promote OpNone [c1, c3]"
    using assms(1) by (auto simp: promote_def op_of_char_def is_cmp_char_def)
  then show ?thesis
    using comparison_parse [of "[c1, c2]" l r] comparison_parse [of "[c1, c3]" l r] assms by simp
qed

theorem second_operator_char_ignored_witness:
  "process_condition_build ''a=<b'' = process_condition_build ''a==b''"
  using second_operator_char_ignored [of "CHR ''=''" "CHR ''<''" "CHR ''=''" "''a''" "''b''"]
  by (simp add: plain_char_def is_cmp_char_def)

text \<open>
  A chain of words joined by one logical operator, \<open>a & b & c\<close>, parses into a
  single flat Condition with that operator and the words in order.
\<close>

lemma single_operator_flat:
  assumes "c = CHR ''&'' \<or> c = CHR ''|''" "2 \<le> length ws"
    and "\<forall>w \<in> set ws. w \<noteq> [] \<and> (\<forall>x \<in> set w. plain_char x)"
  shows "process_condition_build (join_with c ws) =
    Some (CCond (op_of_char c) (map CStr ws) (length (join_with c ws) - 1))"
proof -
  have ne: "ws \<noteq> []" and nl: "length ws \<noteq> 1" using assms(2) by auto
  have lw: "last ws \<noteq> []" using assms(3) ne by simp
  have oc: "op_of_char c \<noteq> OpNone" using assms(1) by (auto simp: op_of_char_def)
  have "process_condition_build (join_with c ws) =
        Some (finish \<lparr>word = last ws, instr = None, cvals = [] @ map CStr (butlast ws),
          cop = op_of_char c, cidx = length (join_with c ws) - 1\<rparr>)"
    using cond_build_chain [OF assms(1) ne assms(3), of 0 "join_with c ws" OpNone "[]" 0] nl
    by (simp add: process_condition_build_def pstate_init_record)
  also have "\<dots> = Some (CCond (op_of_char c) (map CStr ws) (length (join_with c ws) - 1))"
  proof -
    have "map CStr (butlast ws @ [last ws]) = map CStr ws" using ne by simp
    then have "map CStr (butlast ws) @ [CStr (last ws)] = map CStr ws" by simp
    with lw oc show ?thesis by (simp add: finish_def)
  qed
  finally show ?thesis .
qed

lemma single_operator_flat_example:
  "process_condition_build ''a&b&c'' = Some (CCond OpAnd [CStr ''a'', CStr ''b'', CStr ''c''] 4)"
  using single_operator_flat [of "CHR ''&''" "[''a'', ''b'', ''c'']"]
  by (simp add: plain_char_def is_cmp_char_def op_of_char_def)

text \<open>
  C10: a chain of plain words joined by \<open>&\<close> and \<open>|\<close> parses, up to position indices,
  into the left-nested tree of the specification: \<open>a & b | c\<close> is \<open>(a & b) | c\<close> and
  \<open>a | b & c\<close> is \<open>(a | b) & c\<close>, with no precedence of AND over OR.
\<close>

theorem mixed_chain_left_nested:
  assumes "\<forall>(c, w') \<in> set ps. (c = CHR ''&'' \<or> c = CHR ''|'') \<and> w' \<noteq> [] \<and> (\<forall>x \<in> set w'. plain_char x)"
    and "w \<noteq> []" "\<forall>x \<in> set w. plain_char x"
  shows "map_option strip_idx (process_condition_build (chain_text w ps)) =
         Some (lnest (CStr w) (map (\<lambda>(c, w'). (op_of_char c, CStr w')) ps))"
  using chain_parse [OF assms, of OpNone "[]" 0 "chain_text w ps" 0]
  by (auto simp: process_condition_build_def pstate_init_record)

theorem mixed_chain_left_nested_witness:
  "map_option strip_idx (process_condition_build ''a&b|c'') =
     Some (CCond OpOr [CCond OpAnd [CStr ''a'', CStr ''b''] 0, CStr ''c''] 0)"
  using mixed_chain_left_nested [of "[(CHR ''&'', ''b''), (CHR ''|'', ''c'')]" "''a''"]
  by (simp add: chain_text_def plain_char_def is_cmp_char_def op_of_char_def)

text \<open>
  C11: a comparison followed by a logical operator loses its right operand: in
  \<open>l op m & r\<close> the word \<open>m\<close> becomes an operand of its own and the Instruction,
  still open, takes \<open>r\<close> as its right operand at the end.
\<close>

theorem comparison_then_operator_misparsed:
  assumes "ops \<in> set cmp_spellings" "c = CHR ''&'' \<or> c = CHR ''|''"
    and "l \<noteq> []" "m \<noteq> []" "r \<noteq> []"
    and "\<forall>x \<in> set l. plain_char x" "\<forall>x \<in> set m. plain_char x" "\<forall>x \<in> set r. plain_char x"
  shows "process_condition_build (l @ ops @ m @ c # r) =
    Some (CCond (op_of_char c)
      [CStr m, CInstr \<lparr>leftValue = Some l, rightValue = Some r, ioperator = spelled ops, iindex = length l\<rparr>]
      (length (l @ ops @ m @ c # r) - 1))"
proof -
  let ?s = "l @ ops @ m @ c # r"
  let ?io = "\<lparr>leftValue = Some l, rightValue = None, ioperator = spelled ops, iindex = length l\<rparr>"
  let ?j = "length l + length ops + length m"
  have ops: "ops \<noteq> []" "\<forall>c \<in> set ops. is_cmp_char c" using spellings_cmp [OF assms(1)] by auto
  have d1: "drop 0 ?s = l @ (ops @ m @ c # r)" by simp
  have d2: "drop (length l) ?s = ops @ (m @ c # r)" by simp
  have d3: "drop (length l + length ops) ?s = m @ (c # r)" by simp
  have d4: "drop (Suc ?j) ?s = r @ []" by simp
  have j: "?j < length ?s" "?s ! ?j = c" by (simp_all add: nth_append)
  have "process_condition_build ?s =
        cond_build ?s (length l) \<lparr>word = l, instr = None, cvals = [], cop = OpNone, cidx = length l - 1\<rparr>"
    using cond_build_word [OF d1 assms(6) assms(3), of "[]" None "[]" OpNone 0]
    by (simp add: process_condition_build_def pstate_init_record)
  also have "\<dots> = cond_build ?s (length l + length ops)
      \<lparr>word = [], instr = Some ?io, cvals = [], cop = OpNone, cidx = length l + length ops - 1\<rparr>"
    using cond_build_cmp_run [OF d2 ops(2) ops(1)] spellings_promote [OF assms(1)] by simp
  also have "\<dots> = cond_build ?s ?j \<lparr>word = m, instr = Some ?io, cvals = [], cop = OpNone, cidx = ?j - 1\<rparr>"
    using cond_build_word [OF d3 assms(7) assms(4)] by simp
  also have "\<dots> = cond_build ?s (Suc ?j)
      \<lparr>word = [], instr = Some ?io, cvals = [CStr m], cop = op_of_char c, cidx = ?j\<rparr>"
    using cond_build_andor [OF j(1) j(2) assms(2)] assms(4) by (simp add: Let_def)
  also have "\<dots> = cond_build ?s (Suc ?j + length r)
      \<lparr>word = r, instr = Some ?io, cvals = [CStr m], cop = op_of_char c, cidx = Suc ?j + length r - 1\<rparr>"
    using cond_build_word [OF d4 assms(8) assms(5)] by simp
  also have "\<dots> = Some (CCond (op_of_char c) [CStr m, CInstr (?io\<lparr>rightValue := Some r\<rparr>)] (length ?s - 1))"
    using assms(2,5) by (auto simp: cond_build_end finish_def op_of_char_def)
  finally show ?thesis by simp
qed

theorem comparison_then_operator_misparsed_witness:
  "process_condition_build ''a=1&b'' =
    Some (CCond OpAnd [CStr ''1'', CInstr \<lparr>leftValue = Some ''a'', rightValue = Some ''b'', ioperator = OpEq, iindex = 1\<rparr>] 4)"
  using comparison_then_operator_misparsed [of "''=''" "CHR ''&''" "''a''" "''1''" "''b''"]
  by (simp add: cmp_spellings_def spelling_table_def spelled_def plain_char_def is_cmp_char_def op_of_char_def)

text \<open>
  C12: a parenthesised single-character comparison is lost: the loop resumes at the
  Instruction's index, rescans the right operand as a bare word and returns it at
  the closing parenthesis, so \<open>(l op r) rest\<close> parses as the string \<open>r\<close>.
\<close>

theorem parenthesised_comparison_misparsed:
  assumes "is_cmp_char c" "l \<noteq> []" "r \<noteq> []" "\<forall>x \<in> set l. plain_char x" "\<forall>x \<in> set r. plain_char x"
  shows "process_condition_build (CHR ''('' # l @ c # r @ CHR '')'' # rest) = Some (CStr r)"
proof -
  let ?s = "CHR ''('' # l @ c # r @ CHR '')'' # rest"
  let ?io = "\<lparr>leftValue = Some l, rightValue = None, ioperator = op_of_char c, iindex = Suc (length l)\<rparr>"
  let ?k = "Suc (Suc (length l + length r))"
  have pc: "foldl promote OpNone [c] = op_of_char c"
    using assms(1) by (auto simp: promote_def is_cmp_char_def op_of_char_def)
  have d1: "drop 1 ?s = l @ (c # r @ CHR '')'' # rest)" by simp
  have d2: "drop (1 + length l) ?s = [c] @ (r @ CHR '')'' # rest)" by simp
  have d3: "drop (1 + length l + length [c]) ?s = r @ (CHR '')'' # rest)" by simp
  have k: "?k < length ?s" "?s ! ?k = CHR '')''" by (simp_all add: nth_append)
  have inner: "cond_build ?s 1 pstate_init = Some (CInstr (?io\<lparr>rightValue := Some r\<rparr>))"
  proof -
    have "cond_build ?s 1 pstate_init =
          cond_build ?s (1 + length l) \<lparr>word = l, instr = None, cvals = [], cop = OpNone, cidx = 1 + length l - 1\<rparr>"
      using cond_build_word [OF d1 assms(4) assms(2), of "[]" None "[]" OpNone 0] by (simp add: pstate_init_record)
    also have "\<dots> = cond_build ?s (1 + length l + length [c])
        \<lparr>word = [], instr = Some ?io, cvals = [], cop = OpNone, cidx = 1 + length l + length [c] - 1\<rparr>"
      using cond_build_cmp_run [OF d2] assms(1) pc by simp
    also have "\<dots> = cond_build ?s ?k \<lparr>word = r, instr = Some ?io, cvals = [], cop = OpNone, cidx = ?k - 1\<rparr>"
      using cond_build_word [OF d3 assms(5) assms(3)] by simp
    also have "\<dots> = Some (CInstr (?io\<lparr>rightValue := Some r\<rparr>))"
      using cond_build_close [OF k] assms(3) by (simp add: finish_def)
    finally show ?thesis .
  qed
  have d4: "drop (Suc (Suc (length l))) ?s = r @ (CHR '')'' # rest)" by simp
  have "process_condition_build ?s =
        cond_build ?s (Suc (Suc (length l)))
          \<lparr>word = [], instr = None, cvals = [CInstr (?io\<lparr>rightValue := Some r\<rparr>)], cop = OpNone, cidx = 0\<rparr>"
    using cond_build_open [of 0 ?s pstate_init] inner by (simp add: process_condition_build_def pstate_init_record)
  also have "\<dots> = cond_build ?s ?k
      \<lparr>word = r, instr = None, cvals = [CInstr (?io\<lparr>rightValue := Some r\<rparr>)], cop = OpNone, cidx = ?k - 1\<rparr>"
    using cond_build_word [OF d4 assms(5) assms(3)] by simp
  also have "\<dots> = Some (CStr r)"
    using cond_build_close [OF k] assms(3) by (simp add: finish_def)
  finally show ?thesis .
qed

theorem parenthesised_comparison_misparsed_witness:
  "process_condition_build ''(a=b)&c'' = Some (CStr ''b'')"
  using parenthesised_comparison_misparsed [of "CHR ''=''" "''a''" "''b''" "''&c''"]
  by (simp add: plain_char_def is_cmp_char_def)

text \<open>
  C13: a \<open>foreach\<close> header \<open>x kw e\<close> of three space-free tokens binds \<open>x\<close> to the
  collection expression \<open>e\<close>; the middle token is not checked.
\<close>

theorem foreach_header_tokens:
  assumes "CHR '' '' \<notin> set x" "CHR '' '' \<notin> set kw" "CHR '' '' \<notin> set e"
  shows "foreach_build (x @ CHR '' '' # kw @ CHR '' '' # e) = CCond OpIn [CStr x, CStr e] 0"
  using assms by (simp add: foreach_build_def js_split_append_sep nth_opt_def)

theorem foreach_header_tokens_witness:
  "foreach_build ''m in orders'' = CCond OpIn [CStr ''m'', CStr ''orders''] 0"
  using foreach_header_tokens [of "''m''" "''in''" "''orders''"] by simp

text \<open>
  C14: the parser does not return on the header \<open>a(\<close>: the sub-parse that starts at
  the end of the string returns index 0, and the loop restarts before the parenthesis.
\<close>

theorem condition_build_diverges: "process_condition_build ''a('' = None"
proof -
  have ret: "\<not> (s = ''a('' \<and> i = 1) \<and> (s = ''a('' \<and> i = 2 \<longrightarrow> r = finish st)"
    if "cond_build s i st = Some r" for s i st r
  proof (rule cond_build.raw_induct [where P = "\<lambda>s i st r. \<not> (s = ''a('' \<and> i = 1) \<and> (s = ''a('' \<and> i = 2 \<longrightarrow> r = finish st)", OF _ that])
    fix f s i st0 r
    assume IH: "\<And>s i st r. f s i st = Some r \<Longrightarrow> \<not> (s = ''a('' \<and> i = 1) \<and> (s = ''a('' \<and> i = 2 \<longrightarrow> r = finish st)"
      and eq: "(if i < length s then
        (let st = st0\<lparr>cidx := i\<rparr>; c = s ! i in
         if c = CHR '')'' then Some (finish st)
         else if c = CHR ''('' then
           Option.bind (f s (Suc i) pstate_init) (\<lambda>r.
             (let st' = st\<lparr>cvals := cvals st @ [r], word := []\<rparr> in
              case node_index r of
                None \<Rightarrow> Some (finish st')
              | Some j \<Rightarrow> f s (Suc j) st'))
         else if c = CHR ''&'' \<or> c = CHR ''|'' then
           (let vs = (if word st \<noteq> [] then cvals st @ [CStr (word st)] else cvals st);
                opr = op_of_char c;
                vs' = (if cop st = OpNone \<or> cop st = opr then vs else [CCond (cop st) vs (cidx st)])
            in f s (Suc i) (st\<lparr>cvals := vs', cop := opr, cidx := i, word := []\<rparr>))
         else if is_cmp_char c then
           (let io = (case instr st of Some io \<Rightarrow> io
                      | None \<Rightarrow> \<lparr>leftValue = None, rightValue = None, ioperator = OpNone, iindex = i\<rparr>);
                io' = io\<lparr>leftValue := Some (left_or (leftValue io) (word st)),
                         ioperator := promote (ioperator io) c\<rparr>
            in f s (Suc i) (st\<lparr>instr := Some io', word := []\<rparr>))
         else f s (Suc i) (st\<lparr>word := word st @ [c]\<rparr>))
      else Some (finish st0)) = Some r"
    show "\<not> (s = ''a('' \<and> i = 1) \<and> (s = ''a('' \<and> i = 2 \<longrightarrow> r = finish st0)"
    proof (cases "s = ''a('' \<and> i = 1")
      case True
      then have s: "s = ''a(''" and i: "i = 1" by auto
      note eq2 = eq [unfolded s i]
      have "f ''a('' 2 pstate_init = None \<or> f ''a('' 2 pstate_init = Some (finish pstate_init)"
        using IH [of "''a(''" 2 pstate_init] by (cases "f ''a('' 2 pstate_init") auto
      then show ?thesis
      proof
        assume "f ''a('' 2 pstate_init = None"
        with eq2 show ?thesis by (simp add: numeral_2_eq_2 Let_def)
      next
        assume "f ''a('' 2 pstate_init = Some (finish pstate_init)"
        with eq2 have "f ''a('' 1 (st0\<lparr>cidx := 1, cvals := cvals st0 @ [finish pstate_init], word := []\<rparr>) = Some r"
          by (simp add: numeral_2_eq_2 Let_def finish_def pstate_init_def)
        from IH [OF this] show ?thesis by simp
      qed
    next
      case False
      then show ?thesis using eq by auto
    qed
  qed
  have "cond_build ''a('' 1 st = None" for st
    using ret by (cases "cond_build ''a('' 1 st") auto
  then show ?thesis
    by (simp add: process_condition_build_def cond_build_plain [of 0] pstate_init_def plain_char_def is_cmp_char_def)
qed

end
