(* ===== verification/Block_Builder.thy ===== *)
theory Block_Builder
  imports Directive_Scanner Cond_Parser
begin

text \<open>
  The block builder \<open>_processBuildPrivateKey\<close> of \<open>src/lib/tangular.ts\<close>, which turns
  the scanner's matches into the tree of \<open>TangularBloc\<close>s that \<open>compile\<close> keeps.

  The builder mutates objects it has already pushed: after \<open>blocsObject.push(blocObject)\<close>
  the same \<open>blocObject\<close> keeps receiving children until the variable is rebound. The
  output list therefore holds slots: \<open>Cur\<close> stands for the object currently bound to
  \<open>blocObject\<close>, \<open>Done b\<close> for a finished block. Rebinding \<open>blocObject\<close> resolves every
  \<open>Cur\<close> to the final value of the old object; after that no reference to it is
  mutated again, so value semantics is exact from then on.

  Parsed conditions are objects too: evaluation mutates them (\<open>values.shift()\<close>), and
  a block pushed twice shares its condition. A block therefore names its condition
  by an index into a store of condition trees, allocated in parse order. The theory ends
  with the builder's termination.
\<close>

section \<open>Data\<close>

text \<open>\<open>enum TangularPrivateKey\<close>.\<close>

datatype pkey = KNone | KIf | KElse | KElseIf | KFi | KForeach | KFor | KEnd | KContinue | KBreak

text \<open>The \<open>case\<close> labels of the builder's \<open>switch (instructionKey)\<close>.\<close>

definition key_of_string :: "string \<Rightarrow> pkey option" where
  "key_of_string k = map_of [(''for'', KFor), (''foreach'', KForeach), (''if'', KIf), (''else'', KElse),
                             (''continue'', KContinue), (''break'', KBreak), (''end'', KEnd), (''fi'', KFi)] k"

text \<open>
  \<open>TangularBloc.instruction\<close>: a string (literal text or an output expression) or a
  condition object, named by its index in the condition store.
\<close>

datatype binstr = IText string | ICond nat

text \<open>\<open>interface TangularBloc\<close>: name, children, instruction (absent: \<open>None\<close>), isHTML.\<close>

datatype bloc = Bloc (bname: pkey) (children: "bloc list") (binstr: "binstr option") (is_html: bool)

datatype slot = Cur | Done bloc

text \<open>The locals of one activation: \<open>tracking.lastIndex\<close>, \<open>blocsObject\<close>, \<open>blocObject\<close>.\<close>

record frame =
  lastIndex :: nat
  slots :: "slot list"
  cur :: bloc

text \<open>
  The value of one activation: the array \<open>blocsObject\<close> (reached the end of the
  matches), or the record \<open>TangularNestedBlocs\<close> of a nested activation stopped at
  \<open>end\<close>/\<open>fi\<close>, with the matches left in the shared iterator.
\<close>

datatype bresult = BTop "bloc list" | BNested nat "bloc list" bloc "(nat \<times> string) list"

section \<open>Operations on the locals\<close>

definition empty_bloc :: bloc where
  "empty_bloc = Bloc KNone [] None False"

definition frame_init :: "nat \<Rightarrow> frame" where
  "frame_init li = \<lparr>lastIndex = li, slots = [], cur = empty_bloc\<rparr>"

fun add_child :: "bloc \<Rightarrow> bloc \<Rightarrow> bloc" where
  "add_child (Bloc n cs i h) b = Bloc n (cs @ [b]) i h"

fun resolve :: "bloc \<Rightarrow> slot \<Rightarrow> bloc" where
  "resolve c Cur = c"
| "resolve c (Done b) = b"

definition blocs_of :: "frame \<Rightarrow> bloc list" where
  "blocs_of fr = map (resolve (cur fr)) (slots fr)"

text \<open>\<open>blocsObject.push(x)\<close>.\<close>

definition push_slot :: "frame \<Rightarrow> slot \<Rightarrow> frame" where
  "push_slot fr s = fr\<lparr>slots := slots fr @ [s]\<rparr>"

text \<open>\<open>blocObject = b\<close>: the slots naming the old object keep its final value.\<close>

definition rebind :: "frame \<Rightarrow> bloc \<Rightarrow> frame" where
  "rebind fr b = fr\<lparr>slots := map (Done \<circ> resolve (cur fr)) (slots fr), cur := b\<rparr>"

text \<open>\<open>(blocObject.name === NONE ? blocsObject : blocObject.children).push(b)\<close>.\<close>

definition push_target :: "frame \<Rightarrow> bloc \<Rightarrow> frame" where
  "push_target fr b =
     (if bname (cur fr) = KNone then push_slot fr (Done b) else fr\<lparr>cur := add_child (cur fr) b\<rparr>)"

definition is_control :: "pkey \<Rightarrow> bool" where
  "is_control k \<longleftrightarrow> k = KFor \<or> k = KForeach \<or> k = KIf"

text \<open>The header of an \<open>if\<close> goes to \<open>_processConditionBuild\<close>, that of a loop to \<open>_processForeachBuild\<close>.\<close>

definition header_node :: "pkey \<Rightarrow> string \<Rightarrow> cnode option" where
  "header_node k hdr =
     (if k = KIf then process_condition_build (unspace hdr) else Some (foreach_build hdr))"

definition alloc :: "cnode list \<Rightarrow> cnode \<Rightarrow> nat \<times> cnode list" where
  "alloc st c = (length st, st @ [c])"

text \<open>The text of a match between the braces, trimmed: \<open>sentence\<close>.\<close>

definition sentence_of :: "string \<Rightarrow> string" where
  "sentence_of v = tangular_trim (js_substring v 2 (int (length v) - 2))"

text \<open>\<open>instructionKey\<close>: the sentence up to its first space (\<open>sentenceLength\<close> is the match's length).\<close>

definition instruction_key :: "string \<Rightarrow> nat \<Rightarrow> string" where
  "instruction_key sentence len =
     js_substring sentence 0 (case index_of CHR '' '' sentence of None \<Rightarrow> int len | Some k \<Rightarrow> int k)"

text \<open>Literal template text from \<open>tracking.lastIndex\<close> up to a position.\<close>

definition html_bloc :: "string \<Rightarrow> nat \<Rightarrow> nat \<Rightarrow> bloc" where
  "html_bloc tpl a b = Bloc KNone [] (Some (IText (js_substring tpl (int a) (int b)))) True"

text \<open>
  The start of the loop body: the literal text before the match goes to the
  current target, and \<open>tracking.lastIndex\<close> moves past the match.
\<close>

definition advance :: "string \<Rightarrow> frame \<Rightarrow> nat \<Rightarrow> string \<Rightarrow> frame" where
  "advance tpl fr i v =
     (if i \<noteq> lastIndex fr then push_target fr (html_bloc tpl (lastIndex fr) i) else fr)
       \<lparr>lastIndex := i + length v\<rparr>"

text \<open>After the last match: the trailing literal text.\<close>

definition flush :: "string \<Rightarrow> frame \<Rightarrow> frame" where
  "flush tpl fr =
     (if tpl \<noteq> [] \<and> lastIndex fr \<noteq> length tpl
      then push_target fr (html_bloc tpl (lastIndex fr) (length tpl)) else fr)"

definition nested_error :: err where
  "nested_error = TypeError ''Cannot read properties of undefined (reading 'name')''"

section \<open>The builder\<close>

text \<open>
  One activation of \<open>_processBuildPrivateKey(template, elements, returnNextKeyEnd)\<close>:
  the \<open>while\<close> loop over the remaining matches, with the recursive activation for a
  directive nested in an open control block. The condition store is threaded through.
  \<open>None\<close> is a parse of a header that does not return.
\<close>

partial_function (option) build ::
  "string \<Rightarrow> bool \<Rightarrow> (nat \<times> string) list \<Rightarrow> frame \<Rightarrow> cnode list \<Rightarrow> (err + bresult \<times> cnode list) option"
where
  "build tpl ret els fr st =
    (case els of
      [] \<Rightarrow> Some (Inr (BTop (blocs_of (flush tpl fr)), st))
    | (i, v) # rest \<Rightarrow>
        (let sentence = sentence_of v; fr2 = advance tpl fr i v
         in if \<not> has_private_key sentence then
              build tpl ret rest (push_target fr2 (Bloc KNone [] (Some (IText (unspace sentence))) False)) st
            else
              (let key = instruction_key sentence (length v) in
               case key_of_string key of
                 Some k \<Rightarrow>
                   (if is_control k then
                      (let hdr = js_substring sentence (int (length key) + 1) (int (length v)) in
                       if is_control (bname (cur fr2)) then
                         Option.bind (build tpl True rest (frame_init (lastIndex fr2)) st) (\<lambda>r.
                           case r of
                             Inl e \<Rightarrow> Some (Inl e)
                           | Inr (BTop _, st') \<Rightarrow>
                               Option.bind (header_node k hdr) (\<lambda>_. Some (Inl nested_error))
                           | Inr (BNested li bs bc rest', st') \<Rightarrow>
                               Option.bind (header_node k hdr) (\<lambda>c.
                                 (let (n, st'') = alloc st' c;
                                      c1 = add_child (cur fr2) (Bloc k bs (Some (ICond n)) False);
                                      c2 = (if bname bc \<noteq> KNone then add_child c1 bc else c1)
                                  in build tpl ret rest' (fr2\<lparr>lastIndex := li, cur := c2\<rparr>) st'')))
                       else
                         Option.bind (header_node k hdr) (\<lambda>c.
                           (let (n, st') = alloc st c
                            in build tpl ret rest (rebind fr2 (Bloc k [] (Some (ICond n)) False)) st')))
                    else if k = KElse then
                      (if starts_with sentence ''else if'' then
                         Option.bind (process_condition_build
                                        (unspace (js_substring sentence 7 (int (length v))))) (\<lambda>c.
                           (let (n, st') = alloc st c;
                                fr3 = rebind (push_slot fr2 Cur) (Bloc KElseIf [] (Some (ICond n)) False)
                            in build tpl ret rest (push_slot fr3 Cur) st'))
                       else build tpl ret rest (rebind fr2 (Bloc KElse [] None False)) st)
                    else if k = KContinue \<or> k = KBreak then
                      build tpl ret rest (push_slot fr2 (Done (Bloc k [] None False))) st
                    else if ret then
                      Some (Inr (BNested (lastIndex fr2) (blocs_of fr2) (cur fr2) rest, st))
                    else build tpl ret rest (rebind (push_slot fr2 Cur) empty_bloc) st)
               | None \<Rightarrow> build tpl ret rest fr2 st)))"

text \<open>
  The headers whose parse returns: every \<open>if\<close>, \<open>else if\<close>, \<open>for\<close> and
  \<open>foreach\<close> directive among the matches has a header on which the builder's call of
  \<open>_processConditionBuild\<close> returns.
\<close>

definition header_ok :: "string \<Rightarrow> bool" where
  "header_ok v =
     (let s = sentence_of v; key = instruction_key s (length v) in
      \<not> has_private_key s \<or>
      (case key_of_string key of
         Some k \<Rightarrow>
           (if is_control k then header_node k (js_substring s (int (length key) + 1) (int (length v))) \<noteq> None
            else if k = KElse \<and> starts_with s ''else if''
            then process_condition_build (unspace (js_substring s 7 (int (length v)))) \<noteq> None
            else True)
       | None \<Rightarrow> True))"

text \<open>A nested activation resumes the iterator strictly inside the matches it was given.\<close>

definition nested_rest_ok :: "(nat \<times> string) list \<Rightarrow> err + bresult \<times> cnode list \<Rightarrow> bool" where
  "nested_rest_ok els r =
     (case r of Inr (BNested _ _ _ rest', _) \<Rightarrow> length rest' < length els \<and> set rest' \<subseteq> set els | _ \<Rightarrow> True)"

text \<open>
  \<open>compile\<close> up to the closure it returns: the scanner's matches fed to a top-level
  activation. The result is the block list and the condition store.
\<close>

definition compile_blocs :: "string \<Rightarrow> (err + bloc list \<times> cnode list) option" where
  "compile_blocs tpl =
     Option.bind (build tpl False (scan_directives tpl) (frame_init 0) []) (\<lambda>r.
       case r of
         Inl e \<Rightarrow> Some (Inl e)
       | Inr (BTop bs, st) \<Rightarrow> Some (Inr (bs, st))
       | Inr (BNested _ bs _ _, st) \<Rightarrow> Some (Inr (bs, st)))"

section \<open>Properties of the builder\<close>

lemma length_collapse:
  "length (collapse s) \<le> length s" "length (collapse_run s) \<le> length s"
  by (induction s and s rule: collapse_collapse_run.induct) auto

lemma length_js_trim: "length (js_trim s) \<le> length s"
  unfolding js_trim_def
  by (metis length_dropWhile_le length_rev order_trans)

lemma length_sentence_of: "length (sentence_of v) \<le> length v"
  unfolding sentence_of_def tangular_trim_def
  by (meson length_collapse(1) length_js_substring_le length_js_trim order_trans)

lemma js_substring_prefix: "length s \<le> n \<Longrightarrow> js_substring s 0 (int n) = s"
  by (simp add: js_substring_def)

lemma instruction_key_word:
  "CHR '' '' \<notin> set w \<Longrightarrow> length w \<le> n \<Longrightarrow> instruction_key w n = w"
  by (simp add: instruction_key_def js_substring_prefix)

lemma build_Nil: "build tpl ret [] fr st = Some (Inr (BTop (blocs_of (flush tpl fr)), st))"
  by (simp add: build.simps)

lemma build_text:
  "\<not> has_private_key (sentence_of v) \<Longrightarrow>
   build tpl ret ((i, v) # rest) fr st =
   build tpl ret rest (push_target (advance tpl fr i v) (Bloc KNone [] (Some (IText (unspace (sentence_of v)))) False)) st"
  by (subst build.simps) (simp add: Let_def)


lemma key_word:
  "sentence_of v = w \<Longrightarrow> CHR '' '' \<notin> set w \<Longrightarrow> instruction_key w (length v) = w"
  using length_sentence_of [of v] by (simp add: instruction_key_word)

lemma key_if: "instruction_key (CHR ''i'' # CHR ''f'' # CHR '' '' # h) n = ''if''"
  by (simp add: instruction_key_def js_substring_def)

lemma hdr_if:
  "sentence_of v = CHR ''i'' # CHR ''f'' # CHR '' '' # h \<Longrightarrow>
   js_substring (CHR ''i'' # CHR ''f'' # CHR '' '' # h) 3 (int (length v)) = h"
  using length_sentence_of [of v] by (simp add: js_substring_def)

lemmas keyword_simps = key_of_string_def is_control_def has_private_key_def key_at_def
  private_keywords_def starts_with_def is_word_char_def is_line_term_def

lemma build_else:
  "sentence_of v = ''else'' \<Longrightarrow>
   build tpl ret ((i, v) # rest) fr st = build tpl ret rest (rebind (advance tpl fr i v) (Bloc KElse [] None False)) st"
  by (subst build.simps) (simp add: Let_def key_word keyword_simps)

lemma build_break:
  "sentence_of v = ''break'' \<Longrightarrow>
   build tpl ret ((i, v) # rest) fr st =
   build tpl ret rest (push_slot (advance tpl fr i v) (Done (Bloc KBreak [] None False))) st"
  by (subst build.simps) (simp add: Let_def key_word keyword_simps)

lemma build_close:
  "sentence_of v = ''fi'' \<or> sentence_of v = ''end'' \<Longrightarrow>
   build tpl ret ((i, v) # rest) fr st =
   (if ret then Some (Inr (BNested (i + length v) (blocs_of (advance tpl fr i v)) (cur (advance tpl fr i v)) rest, st))
    else build tpl ret rest (rebind (push_slot (advance tpl fr i v) Cur) empty_bloc) st)"
  by (subst build.simps) (elim disjE; simp add: Let_def key_word keyword_simps advance_def)

lemma build_if_open:
  "sentence_of v = ''if '' @ h \<Longrightarrow> \<not> is_control (bname (cur (advance tpl fr i v))) \<Longrightarrow>
   build tpl ret ((i, v) # rest) fr st =
   Option.bind (process_condition_build (unspace h)) (\<lambda>c.
     build tpl ret rest (rebind (advance tpl fr i v) (Bloc KIf [] (Some (ICond (length st))) False)) (st @ [c]))"
  by (subst build.simps)
     (simp add: Let_def key_if hdr_if [of v h] keyword_simps header_node_def alloc_def)

lemma lastIndex_advance [simp]: "lastIndex (advance tpl fr i v) = i + length v"
  by (simp add: advance_def)

lemma build_if_nested:
  "sentence_of v = ''if '' @ h \<Longrightarrow> is_control (bname (cur (advance tpl fr i v))) \<Longrightarrow>
   build tpl ret ((i, v) # rest) fr st =
   Option.bind (build tpl True rest (frame_init (i + length v)) st) (\<lambda>r.
     case r of
       Inl e \<Rightarrow> Some (Inl e)
     | Inr (BTop _, st') \<Rightarrow> Option.bind (header_node KIf h) (\<lambda>_. Some (Inl nested_error))
     | Inr (BNested li bs bc rest', st') \<Rightarrow>
         Option.bind (header_node KIf h) (\<lambda>c.
           (let (n, st'') = alloc st' c;
                c1 = add_child (cur (advance tpl fr i v)) (Bloc KIf bs (Some (ICond n)) False);
                c2 = (if bname bc \<noteq> KNone then add_child c1 bc else c1)
            in build tpl ret rest' ((advance tpl fr i v)\<lparr>lastIndex := li, cur := c2\<rparr>) st'')))"
  by (subst build.simps) (simp add: Let_def key_if hdr_if [of v h] keyword_simps)

lemma key_elseif: "instruction_key (''else if'' @ h) n = ''else''"
  by (simp add: instruction_key_def js_substring_def)

lemma key_at_elseif: "has_private_key (''else if'' @ h)"
  by (simp add: has_private_key_def key_at_def private_keywords_def starts_with_def is_word_char_def)

lemma build_elseif:
  assumes "sentence_of v = ''else if'' @ h"
  shows "build tpl ret ((i, v) # rest) fr st =
    Option.bind (process_condition_build (unspace h)) (\<lambda>c.
      build tpl ret rest
        (push_slot (rebind (push_slot (advance tpl fr i v) Cur) (Bloc KElseIf [] (Some (ICond (length st))) False)) Cur)
        (st @ [c]))"
proof -
  have "js_substring (''else if'' @ h) 7 (int (length v)) = h"
    using length_sentence_of [of v] assms by (simp add: js_substring_def)
  then show ?thesis
    by (subst build.simps)
       (simp add: Let_def assms key_elseif key_at_elseif key_of_string_def is_control_def
                  starts_with_def alloc_def del: append.simps)
qed

lemmas build_eval_simps = frame_init_def advance_def empty_bloc_def is_control_def
  build_close build_Nil flush_def rebind_def push_slot_def push_target_def blocs_of_def
  html_bloc_def js_substring_def alloc_def

lemma rebind_no_cur: "Cur \<notin> set sl \<Longrightarrow> map (Done \<circ> resolve c) sl = sl"
proof (induction sl)
  case (Cons x sl)
  then show ?case by (cases x) auto
qed simp

lemma resolve_no_cur: "Cur \<notin> set sl \<Longrightarrow> map (resolve c) sl = map (resolve c') sl"
proof (induction sl)
  case (Cons x sl)
  then show ?case by (cases x) auto
qed simp

text \<open>
  C22: at top level, an \<open>else\<close> directive replaces the open block by the ELSE block
  without pushing it: the \<open>if\<close> branch before it is lost, and nothing of the new
  state depends on it.
\<close>

theorem else_discards_open_block:
  assumes "Cur \<notin> set (slots fr)" "i = lastIndex fr" "sentence_of v = ''else''"
  shows "build tpl ret ((i, v) # rest) fr st =
         build tpl ret rest \<lparr>lastIndex = i + length v, slots = slots fr, cur = Bloc KElse [] None False\<rparr> st"
proof -
  have "rebind (advance tpl fr i v) (Bloc KElse [] None False) =
        \<lparr>lastIndex = i + length v, slots = slots fr, cur = Bloc KElse [] None False\<rparr>"
    using assms(1,2) rebind_no_cur [OF assms(1)] by (simp add: rebind_def advance_def)
  then show ?thesis using build_else [OF assms(3)] by simp
qed

theorem else_discards_open_block_witness:
  "build ''{{if a}}X{{else}}Y{{fi}}'' False [(9, ''{{else}}''), (18, ''{{fi}}'')]
     \<lparr>lastIndex = 9, slots = [], cur = Bloc KIf [html_bloc ''{{if a}}X{{else}}Y{{fi}}'' 8 9] (Some (ICond 0)) False\<rparr>
     [CStr ''a''] =
   Some (Inr (BTop [Bloc KElse [Bloc KNone [] (Some (IText ''Y'')) True] None False], [CStr ''a'']))"
proof -
  have s: "sentence_of ''{{else}}'' = ''else''" "sentence_of ''{{fi}}'' = ''fi''"
    by (simp_all add: sentence_of_def tangular_trim_def js_substring_def js_trim_def is_js_space_def)
  show ?thesis
    using else_discards_open_block [of "\<lparr>lastIndex = 9, slots = [], cur = Bloc KIf [html_bloc ''{{if a}}X{{else}}Y{{fi}}'' 8 9] (Some (ICond 0)) False\<rparr>"
             9 "''{{else}}''" "''{{if a}}X{{else}}Y{{fi}}''" False "[(18, ''{{fi}}'')]" "[CStr ''a'']"]
    by (simp add: s build_close build_Nil advance_def push_target_def html_bloc_def
                  rebind_def push_slot_def blocs_of_def flush_def empty_bloc_def js_substring_def)
qed

text \<open>
  C23: a \<open>break\<close> directive is appended to the sibling list of the current
  activation, not to the children of the open block, which it leaves unchanged.
\<close>

theorem break_hoisted:
  assumes "i = lastIndex fr" "sentence_of v = ''break''"
  shows "build tpl ret ((i, v) # rest) fr st =
         build tpl ret rest (fr\<lparr>lastIndex := i + length v, slots := slots fr @ [Done (Bloc KBreak [] None False)]\<rparr>) st"
  using build_break [OF assms(2)] assms(1) by (simp add: advance_def push_slot_def)

theorem break_hoisted_witness:
  "build ''{{foreach m in xs}}{{break}}'' False [(19, ''{{break}}'')]
     \<lparr>lastIndex = 19, slots = [], cur = Bloc KForeach [] (Some (ICond 0)) False\<rparr> [] =
   Some (Inr (BTop [Bloc KBreak [] None False], []))"
proof -
  have s: "sentence_of ''{{break}}'' = ''break''"
    by (simp add: sentence_of_def tangular_trim_def js_substring_def js_trim_def is_js_space_def)
  show ?thesis
    using break_hoisted [of 19 "\<lparr>lastIndex = 19, slots = [], cur = Bloc KForeach [] (Some (ICond 0)) False\<rparr>"
                          "''{{break}}''" "''{{foreach m in xs}}{{break}}''" False "[]" "[]"]
    by (simp add: s build_Nil flush_def blocs_of_def)
qed

text \<open>
  C24: when the matches run out while a block is open and was never pushed, the
  activation returns its list without that block: an unclosed block and its content
  vanish without an error.
\<close>

theorem unclosed_block_dropped:
  assumes "Cur \<notin> set (slots fr)" "bname (cur fr) \<noteq> KNone"
  shows "build tpl ret [] fr st = Some (Inr (BTop (map (resolve empty_bloc) (slots fr)), st))"
proof -
  have "slots (flush tpl fr) = slots fr"
    using assms(2) by (simp add: flush_def push_target_def)
  then show ?thesis
    using resolve_no_cur [OF assms(1)] by (simp add: build_Nil blocs_of_def)
qed

theorem unclosed_block_dropped_witness:
  "build ''{{if a}}X'' False [] \<lparr>lastIndex = 8, slots = [], cur = Bloc KIf [] (Some (ICond 0)) False\<rparr> [CStr ''a''] =
   Some (Inr (BTop [], [CStr ''a'']))"
  using unclosed_block_dropped [of "\<lparr>lastIndex = 8, slots = [], cur = Bloc KIf [] (Some (ICond 0)) False\<rparr>"
                                 "''{{if a}}X''" False "[CStr ''a'']"]
  by simp

text \<open>
  C25: a nested \<open>if\<close> whose recursive activation reaches the end of the matches
  without \<open>end\<close> or \<open>fi\<close> makes compilation raise a TypeError.
\<close>

theorem nested_unclosed_error:
  assumes "sentence_of v = ''if '' @ h" "is_control (bname (cur (advance tpl fr i v)))"
    and "build tpl True rest (frame_init (i + length v)) st = Some (Inr (BTop bs, st'))"
    and "process_condition_build (unspace h) = Some c"
  shows "build tpl ret ((i, v) # rest) fr st = Some (Inl nested_error)"
  using build_if_nested [OF assms(1,2)] assms(3,4) by (simp add: header_node_def)

theorem nested_unclosed_error_witness:
  "build ''{{if a}} {{if b}}X'' False [(9, ''{{if b}}'')]
     \<lparr>lastIndex = 9, slots = [], cur = Bloc KIf [] (Some (ICond 0)) False\<rparr> [CStr ''a''] =
   Some (Inl nested_error)"
proof -
  have s: "sentence_of ''{{if b}}'' = ''if '' @ ''b''"
    by (simp add: sentence_of_def tangular_trim_def js_substring_def js_trim_def is_js_space_def)
  have p: "process_condition_build (unspace ''b'') = Some (CStr ''b'')"
    by (simp add: process_condition_build_def unspace_def is_js_space_def cond_build.simps
                  pstate_init_def finish_def Let_def is_cmp_char_def)
  show ?thesis
    using nested_unclosed_error [OF s, of "''{{if a}} {{if b}}X''" "\<lparr>lastIndex = 9, slots = [], cur = Bloc KIf [] (Some (ICond 0)) False\<rparr>" 9 "[]" "[CStr ''a'']"] p
    by (simp add: build_Nil advance_def is_control_def frame_init_def flush_def push_target_def
                  push_slot_def blocs_of_def html_bloc_def js_substring_def)
qed

lemma nested_rest_ok_mono:
  "nested_rest_ok rest r \<Longrightarrow> length rest \<le> length els \<Longrightarrow> set rest \<subseteq> set els \<Longrightarrow> nested_rest_ok els r"
  by (auto simp: nested_rest_ok_def split: sum.splits bresult.splits prod.splits)

text \<open>One step of the builder loop on a match, with the locals it computes first.\<close>

lemma build_Cons:
  assumes "s = sentence_of v" "key = instruction_key s (length v)" "fr2 = advance tpl fr i v"
    and "hdr = js_substring s (int (length key) + 1) (int (length v))"
  shows "build tpl ret ((i, v) # rest) fr st =
  (if \<not> has_private_key s then
     build tpl ret rest (push_target fr2 (Bloc KNone [] (Some (IText (unspace s))) False)) st
   else (case key_of_string key of
     Some k \<Rightarrow>
       (if is_control k then
          (if is_control (bname (cur fr2)) then
             Option.bind (build tpl True rest (frame_init (lastIndex fr2)) st) (\<lambda>r.
               case r of
                 Inl e \<Rightarrow> Some (Inl e)
               | Inr (BTop _, st') \<Rightarrow> Option.bind (header_node k hdr) (\<lambda>_. Some (Inl nested_error))
               | Inr (BNested li bs bc rest', st') \<Rightarrow>
                   Option.bind (header_node k hdr) (\<lambda>c.
                     (let (n, st'') = alloc st' c;
                          c1 = add_child (cur fr2) (Bloc k bs (Some (ICond n)) False);
                          c2 = (if bname bc \<noteq> KNone then add_child c1 bc else c1)
                      in build tpl ret rest' (fr2\<lparr>lastIndex := li, cur := c2\<rparr>) st'')))
           else
             Option.bind (header_node k hdr) (\<lambda>c.
               (let (n, st') = alloc st c
                in build tpl ret rest (rebind fr2 (Bloc k [] (Some (ICond n)) False)) st')))
        else if k = KElse then
          (if starts_with s ''else if'' then
             Option.bind (process_condition_build (unspace (js_substring s 7 (int (length v))))) (\<lambda>c.
               (let (n, st') = alloc st c;
                    fr3 = rebind (push_slot fr2 Cur) (Bloc KElseIf [] (Some (ICond n)) False)
                in build tpl ret rest (push_slot fr3 Cur) st'))
           else build tpl ret rest (rebind fr2 (Bloc KElse [] None False)) st)
        else if k = KContinue \<or> k = KBreak then
          build tpl ret rest (push_slot fr2 (Done (Bloc k [] None False))) st
        else if ret then
          Some (Inr (BNested (lastIndex fr2) (blocs_of fr2) (cur fr2) rest, st))
        else build tpl ret rest (rebind (push_slot fr2 Cur) empty_bloc) st)
   | None \<Rightarrow> build tpl ret rest fr2 st))"
  unfolding assms by (subst build.simps) (simp only: Let_def list.case prod.case)

lemma build_total:
  "list_all (header_ok \<circ> snd) els \<Longrightarrow> \<exists>r. build tpl ret els fr st = Some r \<and> nested_rest_ok els r"
proof (induction els arbitrary: ret fr st rule: length_induct)
  case (1 els)
  show ?case
  proof (cases els)
    case Nil
    then show ?thesis by (simp add: build_Nil nested_rest_ok_def)
  next
    case (Cons e rest)
    obtain i v where e: "els = (i, v) # rest" using Cons by (cases e) auto
    have ih: "\<exists>r. build tpl ret' rest' fr' st' = Some r \<and> nested_rest_ok els r"
      if l: "length rest' < length els" and sub: "set rest' \<subseteq> set els" for ret' rest' fr' st'
    proof -
      have "list_all (header_ok \<circ> snd) rest'" using "1.prems" sub by (auto simp: list_all_iff)
      then obtain r where "build tpl ret' rest' fr' st' = Some r" "nested_rest_ok rest' r"
        using "1.IH" l by blast
      then show ?thesis using nested_rest_ok_mono [of rest' r els] l sub by auto
    qed
    have rest: "length rest < length els" "set rest \<subseteq> set els" using e by auto
    have hok: "header_ok v" using "1.prems" e by simp
    define s where "s = sentence_of v"
    define key where "key = instruction_key s (length v)"
    define fr2 where "fr2 = advance tpl fr i v"
    define hdr where "hdr = js_substring s (int (length key) + 1) (int (length v))"
    note unf = build_Cons [OF s_def key_def fr2_def hdr_def, of ret rest st, folded e]
    have hctl: "header_node k hdr \<noteq> None"
      if "has_private_key s" "key_of_string key = Some k" "is_control k" for k
      using hok that unfolding header_ok_def s_def key_def hdr_def by (simp add: Let_def)
    have helse: "process_condition_build (unspace (js_substring s 7 (int (length v)))) \<noteq> None"
      if "has_private_key s" "key_of_string key = Some KElse" "starts_with s ''else if''"
      using hok that unfolding header_ok_def s_def key_def by (simp add: Let_def is_control_def)
    note ihr = ih [OF rest]
    show ?thesis
    proof (cases "has_private_key s")
      case False
      then show ?thesis using unf ihr by simp
    next
      case True
      show ?thesis
      proof (cases "key_of_string key")
        case None
        with True show ?thesis using unf ihr by simp
      next
        case (Some k)
        consider (ctl) "is_control k" | (els) "\<not> is_control k" "k = KElse"
          | (mk) "\<not> is_control k" "k \<noteq> KElse" "k = KContinue \<or> k = KBreak"
          | (cl) "\<not> is_control k" "k \<noteq> KElse" "\<not> (k = KContinue \<or> k = KBreak)"
          by blast
        then show ?thesis
        proof cases
          case ctl
          obtain c where c: "header_node k hdr = Some c" using hctl [OF True Some ctl] by blast
          show ?thesis
          proof (cases "is_control (bname (cur fr2))")
            case False
            then show ?thesis using unf True Some ctl c ihr by (simp add: alloc_def)
          next
            case nest: True
            obtain r0 where r0: "build tpl True rest (frame_init (lastIndex fr2)) st = Some r0"
              "nested_rest_ok els r0" using ihr by blast
            show ?thesis
            proof (cases r0)
              case (Inl e)
              then show ?thesis using unf True Some ctl nest r0 by (simp add: nested_rest_ok_def)
            next
              case (Inr p)
              obtain b st' where p: "p = (b, st')" by fastforce
              show ?thesis
              proof (cases b)
                case (BTop x)
                then show ?thesis using unf True Some ctl nest r0 Inr p c by (simp add: nested_rest_ok_def)
              next
                case (BNested li bs bc rest')
                have "length rest' < length els" "set rest' \<subseteq> set els"
                  using r0(2) Inr p BNested by (auto simp: nested_rest_ok_def)
                note ihn = ih [OF this]
                show ?thesis using unf True Some ctl nest r0 Inr p BNested c ihn by (simp add: alloc_def Let_def)
              qed
            qed
          qed
        next
          case els
          show ?thesis
          proof (cases "starts_with s ''else if''")
            case True
            then obtain c where "process_condition_build (unspace (js_substring s 7 (int (length v)))) = Some c"
              using helse \<open>has_private_key s\<close> Some els by blast
            then show ?thesis using unf True \<open>has_private_key s\<close> Some els ihr by (simp add: alloc_def Let_def)
          next
            case False
            then show ?thesis using unf True Some els ihr by simp
          qed
        next
          case mk
          then show ?thesis using unf True Some ihr by simp
        next
          case cl
          then show ?thesis using unf True Some ihr rest by (simp add: nested_rest_ok_def)
        qed
      qed
    qed
  qed
qed


lemma scan_if_a:
  "scan_directives ''{{if a}}X{{fi}}'' = [(0, ''{{if a}}''), (9, ''{{fi}}'')]"
  "sentence_of ''{{if a}}'' = ''if '' @ ''a''" "sentence_of ''{{fi}}'' = ''fi''"
  "process_condition_build ''a'' = Some (CStr ''a'')"
  by (simp_all add: scan_directives_def match_all.simps [of "''{{if a}}X{{fi}}''"] find_close.simps
                    look_ok_def ends_close_def is_line_term_def sentence_of_def tangular_trim_def
                    js_substring_def js_trim_def is_js_space_def process_condition_build_def cond_build.simps
                    pstate_init_def finish_def Let_def is_cmp_char_def)

text \<open>
  C26: compilation returns (does not loop) on every template whose \<open>if\<close>,
  \<open>else if\<close>, \<open>for\<close> and \<open>foreach\<close> headers the condition parser returns on.
\<close>

theorem compile_terminates:
  assumes "list_all (header_ok \<circ> snd) (scan_directives tpl)"
  shows "compile_blocs tpl \<noteq> None"
proof -
  obtain r where "build tpl False (scan_directives tpl) (frame_init 0) [] = Some r"
    using build_total [OF assms] by blast
  then show ?thesis by (simp add: compile_blocs_def split: sum.splits bresult.splits prod.splits)
qed

theorem compile_terminates_witness:
  "list_all (header_ok \<circ> snd) (scan_directives ''{{if a}}X{{fi}}'') \<and> compile_blocs ''{{if a}}X{{fi}}'' \<noteq> None"
proof -
  note sc = scan_if_a(1) and s = scan_if_a(2,3) and p = scan_if_a(4)
  have h1: "header_ok ''{{if a}}''"
    by (simp add: header_ok_def s(1) key_if hdr_if [of "''{{if a}}''" "''a''"] header_node_def unspace_def
                  is_js_space_def p is_control_def key_of_string_def Let_def js_substring_def)
  have h2: "header_ok ''{{fi}}''"
    by (simp add: header_ok_def s(2) instruction_key_def js_substring_def keyword_simps Let_def)
  have h: "list_all (header_ok \<circ> snd) (scan_directives ''{{if a}}X{{fi}}'')"
    using h1 h2 by (simp add: sc)
  show ?thesis using h compile_terminates [OF h] by simp
qed

end
