(* ===== verification/Js_Value.thy ===== *)
theory Js_Value
  imports Tangular_Base
begin

text \<open>
  The JavaScript values that a payload, a helper or a pipe stage can hold, with the
  engine operations the renderer applies to them: truthiness (\<open>!!v\<close>, \<open>&&\<close>,
  \<open>||\<close>), \<open>ToString\<close> (string concatenation \<open>template += v\<close>),
  \<open>ToNumber\<close>, loose and strict equality, the relational comparison, property
  access \<open>o[k]\<close>, the keys of \<open>for (const n in v)\<close> and the object spread
  \<open>{...payload}\<close>. Numbers are integers (JavaScript doubles with integral values);
  an object is an association list from its keys to its values in insertion order, and
  a function is a handle into the host's function table with its source text.
  Identity of objects is approximated by structural equality.
\<close>

datatype jsval =
    JUndef
  | JNull
  | JBool bool
  | JNum int
  | JStr string
  | JArr "jsval list"
  | JObj "(string \<times> jsval) list"
  | JFun nat string

subsection \<open>Truthiness and conversions\<close>

fun truthy :: "jsval \<Rightarrow> bool" where
  "truthy JUndef = False"
| "truthy JNull = False"
| "truthy (JBool b) = b"
| "truthy (JNum n) = (n \<noteq> 0)"
| "truthy (JStr s) = (s \<noteq> [])"
| "truthy (JArr _) = True"
| "truthy (JObj _) = True"
| "truthy (JFun _ _) = True"

text \<open>\<open>ToString\<close>; for an object its \<open>toString\<close> method: \<open>Array.prototype.join\<close>
  (with \<open>undefined\<close> and \<open>null\<close> elements empty), \<open>[object Object]\<close>, or a function's
  source text.\<close>

fun js_to_string :: "jsval \<Rightarrow> string" where
  "js_to_string JUndef = ''undefined''"
| "js_to_string JNull = ''null''"
| "js_to_string (JBool b) = (if b then ''true'' else ''false'')"
| "js_to_string (JNum n) = num_to_string n"
| "js_to_string (JStr s) = s"
| "js_to_string (JArr xs) =
     join_with (CHR '','') (map (\<lambda>x. if x = JUndef \<or> x = JNull then [] else js_to_string x) xs)"
| "js_to_string (JObj _) = ''[object Object]''"
| "js_to_string (JFun _ src) = src"

text \<open>\<open>StringToNumber\<close> on decimal integer literals; \<open>None\<close> is \<open>NaN\<close>.\<close>

definition str_to_number :: "string \<Rightarrow> int option" where
  "str_to_number s =
     (let t = js_trim s in
      if t = [] then Some 0
      else if hd t = CHR ''-'' \<and> tl t \<noteq> [] \<and> list_all is_digit (tl t) then Some (- int (dec_value (tl t)))
      else if hd t = CHR ''+'' \<and> tl t \<noteq> [] \<and> list_all is_digit (tl t) then Some (int (dec_value (tl t)))
      else if list_all is_digit t then Some (int (dec_value t))
      else None)"

definition is_object :: "jsval \<Rightarrow> bool" where
  "is_object v \<longleftrightarrow> (case v of JArr _ \<Rightarrow> True | JObj _ \<Rightarrow> True | JFun _ _ \<Rightarrow> True | _ \<Rightarrow> False)"

text \<open>\<open>ToPrimitive\<close>: an object becomes its string form, a primitive stays.\<close>

definition to_primitive :: "jsval \<Rightarrow> jsval" where
  "to_primitive v = (if is_object v then JStr (js_to_string v) else v)"

fun to_number :: "jsval \<Rightarrow> int option" where
  "to_number JUndef = None"
| "to_number JNull = Some 0"
| "to_number (JBool b) = Some (if b then 1 else 0)"
| "to_number (JNum n) = Some n"
| "to_number (JStr s) = str_to_number s"
| "to_number v = str_to_number (js_to_string v)"

subsection \<open>Equality and comparison\<close>

text \<open>The language type of a value: arrays, plain objects and functions are all \<open>Object\<close>.\<close>

fun type_tag :: "jsval \<Rightarrow> nat" where
  "type_tag JUndef = 0"
| "type_tag JNull = 1"
| "type_tag (JBool _) = 2"
| "type_tag (JNum _) = 3"
| "type_tag (JStr _) = 4"
| "type_tag _ = 5"

text \<open>\<open>===\<close>: same type and same value.\<close>

definition strict_eq :: "jsval \<Rightarrow> jsval \<Rightarrow> bool" where
  "strict_eq x y \<longleftrightarrow> x = y"

definition nullish :: "jsval \<Rightarrow> bool" where
  "nullish v \<longleftrightarrow> v = JUndef \<or> v = JNull"

text \<open>
  \<open>==\<close> (IsLooselyEqual): values of one type compare strictly, \<open>null == undefined\<close>;
  otherwise a boolean becomes a number, an object its primitive, and a number and a
  string compare as numbers.
\<close>

definition loose_prim :: "jsval \<Rightarrow> jsval" where
  "loose_prim v = (case v of JBool b \<Rightarrow> JNum (if b then 1 else 0) | _ \<Rightarrow> to_primitive v)"

definition loose_eq :: "jsval \<Rightarrow> jsval \<Rightarrow> bool" where
  "loose_eq x y \<longleftrightarrow>
     (if type_tag x = type_tag y then x = y
      else if nullish x \<or> nullish y then nullish x \<and> nullish y
      else (case (loose_prim x, loose_prim y) of
              (JNum m, JNum n) \<Rightarrow> m = n
            | (JStr s, JStr t) \<Rightarrow> s = t
            | (JNum m, JStr t) \<Rightarrow> str_to_number t = Some m
            | (JStr s, JNum n) \<Rightarrow> str_to_number s = Some n
            | _ \<Rightarrow> False))"

text \<open>Lexicographic order of code units, as \<open><\<close> compares two strings.\<close>

fun str_less :: "string \<Rightarrow> string \<Rightarrow> bool" where
  "str_less [] (_ # _) = True"
| "str_less _ [] = False"
| "str_less (a # as) (b # bs) = (if a = b then str_less as bs else (of_char a :: nat) < of_char b)"

text \<open>IsLessThan: \<open>None\<close> is the \<open>undefined\<close> result of a comparison with \<open>NaN\<close>.\<close>

definition js_less :: "jsval \<Rightarrow> jsval \<Rightarrow> bool option" where
  "js_less x y =
     (case (to_primitive x, to_primitive y) of
        (JStr s, JStr t) \<Rightarrow> Some (str_less s t)
      | (px, py) \<Rightarrow>
          (case (to_number px, to_number py) of
             (Some m, Some n) \<Rightarrow> Some (m < n)
           | _ \<Rightarrow> None))"

subsection \<open>Properties and enumeration\<close>

text \<open>A canonical array index: the decimal form of a natural number.\<close>

definition is_array_index :: "string \<Rightarrow> bool" where
  "is_array_index k \<longleftrightarrow> k \<noteq> [] \<and> list_all is_digit k \<and> (k = ''0'' \<or> hd k \<noteq> CHR ''0'')"

text \<open>\<open>o[k]\<close>: own properties only; \<open>undefined\<close> where there is none.\<close>

fun js_get :: "jsval \<Rightarrow> string \<Rightarrow> jsval" where
  "js_get (JObj kvs) k = (case map_of kvs k of Some v \<Rightarrow> v | None \<Rightarrow> JUndef)"
| "js_get (JArr xs) k =
     (if is_array_index k \<and> dec_value k < length xs then xs ! dec_value k
      else if k = ''length'' then JNum (int (length xs)) else JUndef)"
| "js_get (JStr s) k =
     (if is_array_index k \<and> dec_value k < length s then JStr [s ! dec_value k]
      else if k = ''length'' then JNum (int (length s)) else JUndef)"
| "js_get _ k = JUndef"

text \<open>
  The keys \<open>for (const n in v)\<close> visits: the indices of an array or a string, and the
  own keys of an object, array indices first in ascending order, then the others in
  insertion order.
\<close>

fun for_in_keys :: "jsval \<Rightarrow> string list" where
  "for_in_keys (JArr xs) = map nat_to_dec [0..<length xs]"
| "for_in_keys (JStr s) = map nat_to_dec [0..<length s]"
| "for_in_keys (JObj kvs) =
     (let ks = remdups (map fst kvs) in
      sort_key dec_value (filter is_array_index ks) @ filter (\<lambda>k. \<not> is_array_index k) ks)"
| "for_in_keys _ = []"

text \<open>\<open>{...o, [k]: v}\<close>: an existing key keeps its place, a new one is appended.\<close>

definition obj_set :: "string \<Rightarrow> jsval \<Rightarrow> (string \<times> jsval) list \<Rightarrow> (string \<times> jsval) list" where
  "obj_set k v kvs =
     (if k \<in> fst ` set kvs then map (\<lambda>(k', v'). if k' = k then (k', v) else (k', v')) kvs
      else kvs @ [(k, v)])"

definition spread :: "jsval \<Rightarrow> (string \<times> jsval) list" where
  "spread v = map (\<lambda>k. (k, js_get v k)) (for_in_keys v)"

section \<open>Lemmas\<close>

lemma strict_eq_loose_eq: "strict_eq x y \<Longrightarrow> loose_eq x y"
  by (simp add: strict_eq_def loose_eq_def)

lemma loose_eq_sym: "loose_eq x y = loose_eq y x"
  by (auto simp: loose_eq_def split: jsval.splits)

lemma map_of_overwrite:
  "map_of (map (\<lambda>(k', v'). if k' = k then (k', v) else (k', v')) kvs) a =
   (if a = k then map_option (\<lambda>_. v) (map_of kvs k) else map_of kvs a)"
  by (induction kvs) auto

lemma map_of_obj_set [simp]: "map_of (obj_set k v kvs) = (map_of kvs)(k \<mapsto> v)"
proof
  fix a
  show "map_of (obj_set k v kvs) a = ((map_of kvs)(k \<mapsto> v)) a"
  proof (cases "k \<in> fst ` set kvs")
    case True
    then have "map_of kvs k \<noteq> None" by (simp add: map_of_eq_None_iff)
    with True show ?thesis by (auto simp: obj_set_def map_of_overwrite)
  next
    case False
    then have "map_of kvs k = None" by (simp add: map_of_eq_None_iff)
    with False show ?thesis by (auto simp: obj_set_def map_add_def split: option.splits)
  qed
qed

lemma js_get_obj_set [simp]: "js_get (JObj (obj_set k v kvs)) k' = (if k' = k then v else js_get (JObj kvs) k')"
  by simp

end
