(* ===== verification/Helper_Registry.thy ===== *)
theory Helper_Registry
  imports Js_Value
begin

text \<open>
  The state of a \<open>Tangular\<close> instance (\<open>src/lib/tangular.ts\<close>, class
  \<open>Tangular\<close>): its helper registry \<open>_helpers\<close>, seeded by the constructor with
  \<open>raw\<close> and \<open>encode\<close> and extended by \<open>register\<close>. A helper, like any function a
  payload holds, is called with the pipeline's accumulated value and the argument
  strings of the stage, and may throw. Functions stored in a payload are host
  functions: \<open>host_funs\<close> gives the behaviour of each function handle. The theory
  ends with the length bounds of the HTML escape and its round trip through a reference
  decoder.
\<close>

type_synonym helper = "jsval \<Rightarrow> string list \<Rightarrow> err + jsval"

record tangular =
  helpers :: "string \<rightharpoonup> helper"
  host_funs :: "nat \<Rightarrow> helper"

subsection \<open>The built-in helpers\<close>

text \<open>The replacement function of \<open>encode\<close>, one character at a time.\<close>

definition escape_char :: "char \<Rightarrow> string" where
  "escape_char c =
     (if c = CHR ''&'' then ''&amp;''
      else if c = CHR ''<'' then ''&lt;''
      else if c = CHR ''>'' then ''&gt;''
      else if c = CHR 0x22 then ''&quot;''
      else [c])"

definition html_escape :: "string \<Rightarrow> string" where
  "html_escape s = concat (map escape_char s)"

text \<open>\<open>(typeof value === 'string' && value.replace(...)) || value\<close>.\<close>

definition encode_helper :: helper where
  "encode_helper v args =
     Inr (case v of
            JStr s \<Rightarrow> (let r = html_escape s in if truthy (JStr r) then JStr r else v)
          | _ \<Rightarrow> v)"

definition raw_helper :: helper where
  "raw_helper v args = Inr v"

subsection \<open>Construction and registration\<close>

definition new_tangular :: "(nat \<Rightarrow> helper) \<Rightarrow> tangular" where
  "new_tangular fs = \<lparr>helpers = [''raw'' \<mapsto> raw_helper, ''encode'' \<mapsto> encode_helper], host_funs = fs\<rparr>"

definition register :: "string \<Rightarrow> helper \<Rightarrow> tangular \<Rightarrow> tangular" where
  "register name cb t = t\<lparr>helpers := (helpers t)(name \<mapsto> cb)\<rparr>"

text \<open>
  The registry is well formed when the two built-in names still denote the built-in
  helpers: \<open>register\<close> can overwrite them, and the implicit \<open>encode\<close> stage of every
  output expression then calls the replacement.
\<close>

definition builtins_intact :: "tangular \<Rightarrow> bool" where
  "builtins_intact t \<longleftrightarrow> helpers t ''raw'' = Some raw_helper \<and> helpers t ''encode'' = Some encode_helper"

text \<open>
  Decoding of the four entities \<open>encode\<close> produces. The source has no decoder: this is
  the reference inverse against which the escape is shown to lose nothing.
\<close>

fun html_unescape :: "string \<Rightarrow> string" where
  "html_unescape [] = []"
| "html_unescape (c # r) =
     (if c = CHR ''&'' \<and> take 4 r = ''amp;'' then CHR ''&'' # html_unescape (drop 4 r)
      else if c = CHR ''&'' \<and> take 3 r = ''lt;'' then CHR ''<'' # html_unescape (drop 3 r)
      else if c = CHR ''&'' \<and> take 3 r = ''gt;'' then CHR ''>'' # html_unescape (drop 3 r)
      else if c = CHR ''&'' \<and> take 5 r = ''quot;'' then CHR 0x22 # html_unescape (drop 5 r)
      else c # html_unescape r)"

section \<open>Lemmas\<close>

lemma escape_char_ne [simp]: "escape_char c \<noteq> []"
  by (simp add: escape_char_def)

lemma html_escape_Nil_iff [simp]: "html_escape s = [] \<longleftrightarrow> s = []"
  by (induction s) (auto simp: html_escape_def)

lemma html_escape_simps [js_simps]:
  "html_escape [] = []" "html_escape (c # s) = escape_char c @ html_escape s"
  by (simp_all add: html_escape_def)

lemma encode_helper_eq:
  "encode_helper v args = Inr (case v of JStr s \<Rightarrow> JStr (html_escape s) | _ \<Rightarrow> v)"
  by (cases v) (auto simp: encode_helper_def Let_def html_escape_def)

text \<open>Escaped text holds no markup character but as part of an entity.\<close>

lemma escape_char_safe: "x \<in> set (escape_char c) \<Longrightarrow> x \<notin> {CHR ''<'', CHR ''>'', CHR 0x22}"
  by (auto simp: escape_char_def split: if_splits)

lemma html_escape_safe: "x \<in> set (html_escape s) \<Longrightarrow> x \<notin> {CHR ''<'', CHR ''>'', CHR 0x22}"
  by (auto simp: html_escape_def dest: escape_char_safe)

lemma new_tangular_intact: "builtins_intact (new_tangular fs)"
  by (simp add: builtins_intact_def new_tangular_def)

lemma register_intact:
  "builtins_intact t \<Longrightarrow> name \<notin> {''raw'', ''encode''} \<Longrightarrow> builtins_intact (register name cb t)"
  by (auto simp: builtins_intact_def register_def)

lemma helpers_register [simp]: "helpers (register name cb t) = (helpers t)(name \<mapsto> cb)"
  by (simp add: register_def)

lemma host_funs_register [simp]: "host_funs (register name cb t) = host_funs t"
  by (simp add: register_def)

lemma escape_char_length: "1 \<le> length (escape_char c) \<and> length (escape_char c) \<le> 6"
  by (simp add: escape_char_def)

lemma unescape_escape_char: "html_unescape (escape_char c @ r) = c # html_unescape r"
  by (simp add: escape_char_def)

text \<open>Numerals pass the escape unchanged.\<close>

lemma html_escape_plain: "(\<forall>c \<in> set s. is_digit c \<or> c \<in> set ''-.e+'') \<Longrightarrow> html_escape s = s"
  by (induction s) (auto simp: html_escape_simps escape_char_def is_digit_def)

section \<open>Properties of the escape\<close>

text \<open>
  C37: the \<open>encode\<close> helper's replacement never shortens a string and at most
  multiplies its length by six (the length of \<open>&quot;\<close>).
\<close>

theorem html_escape_length:
  "length s \<le> length (html_escape s) \<and> length (html_escape s) \<le> 6 * length s"
proof (induction s)
  case (Cons c s)
  then show ?case using escape_char_length [of c] by (simp add: html_escape_simps)
qed (simp add: html_escape_simps)

text \<open>
  C38: the escape is lossless: decoding the four entities gives the original string
  back, in particular a literal \<open>&\<close> of the input is escaped too, so the input text
  \<open>&lt;\<close> is not confused with an escaped \<open><\<close>.
\<close>

theorem html_escape_roundtrip: "html_unescape (html_escape s) = s"
  by (induction s) (simp_all add: html_escape_simps unescape_escape_char)

end
