(* ===== verification/Sentence_Eval.thy ===== *)
theory Sentence_Eval
  imports Helper_Registry
begin

text \<open>
  The Sentence Evaluator, \<open>Tangular._processSentence\<close>: a pipe-delimited expression
  is split on \<open>|\<close>, an implicit \<open>encode\<close> stage is appended unless the last stage
  is \<open>raw\<close>, and the stages are folded left to right from the empty string. A stage
  is a quoted literal, or a dotted path into the payload with an optional argument list;
  a path that resolves to a falsy value falls back to the helper of the same name.
\<close>

text \<open>\<open>safeVal.split('.').reduce((object, key) => object && object[key], payload)\<close>.\<close>

definition resolve_path :: "jsval \<Rightarrow> string list \<Rightarrow> jsval" where
  "resolve_path pl ks = foldl (\<lambda>obj k. if truthy obj then js_get obj k else obj) pl ks"

text \<open>\<open>deepObject(accumulator, ...parameters)\<close>: only a function can be called.\<close>

definition call_value :: "tangular \<Rightarrow> jsval \<Rightarrow> jsval \<Rightarrow> string list \<Rightarrow> err + jsval" where
  "call_value t f acc ps =
     (case f of JFun i _ \<Rightarrow> host_funs t i acc ps
      | _ \<Rightarrow> Inl (TypeError ''deepObject is not a function''))"

definition is_quote :: "char \<Rightarrow> bool" where
  "is_quote c \<longleftrightarrow> c = CHR 0x22 \<or> c = CHR 0x27"

text \<open>One step of the \<open>reduce\<close> over the stages.\<close>

definition stage :: "tangular \<Rightarrow> jsval \<Rightarrow> jsval \<Rightarrow> string \<Rightarrow> err + jsval" where
  "stage t pl acc cval =
     (if cval \<noteq> [] \<and> is_quote (hd cval)
      then Inr (JStr (js_substring cval 1 (int (length cval) - 1)))
      else
        (let isFunction = index_of CHR ''('' cval;
             safeVal = js_substring cval 0
                         (case isFunction of None \<Rightarrow> int (length cval) | Some k \<Rightarrow> int k);
             deepObject = resolve_path pl (js_split CHR ''.'' safeVal);
             parameters = (case isFunction of None \<Rightarrow> []
                           | Some k \<Rightarrow> js_split CHR '','' (js_substring cval (int k + 1) (int (length cval) - 1)))
         in if \<not> truthy deepObject
            then (case helpers t safeVal of None \<Rightarrow> Inr JUndef | Some h \<Rightarrow> h acc parameters)
            else (case isFunction of None \<Rightarrow> Inr deepObject
                  | Some _ \<Rightarrow> call_value t deepObject acc parameters)))"

fun run_stages :: "tangular \<Rightarrow> jsval \<Rightarrow> jsval \<Rightarrow> string list \<Rightarrow> err + jsval" where
  "run_stages t pl acc [] = Inr acc"
| "run_stages t pl acc (k # ks) =
     (case stage t pl acc k of Inl e \<Rightarrow> Inl e | Inr v \<Rightarrow> run_stages t pl v ks)"

definition pipe_keys :: "string \<Rightarrow> string list" where
  "pipe_keys s = (let keys = js_split CHR ''|'' s in if last keys \<noteq> ''raw'' then keys @ [''encode''] else keys)"

text \<open>The sentence is \<open>None\<close> where the source passes \<open>undefined\<close>: \<open>split\<close> then throws.\<close>

definition process_sentence :: "tangular \<Rightarrow> jsval \<Rightarrow> string option \<Rightarrow> err + jsval" where
  "process_sentence t pl so =
     (case so of None \<Rightarrow> Inl (TypeError ''Cannot read properties of undefined'')
      | Some s \<Rightarrow> run_stages t pl (JStr []) (pipe_keys s))"

text \<open>A stage that is a bare identifier: no quote, no argument list, no dot, no pipe.\<close>

definition plain_name :: "string \<Rightarrow> bool" where
  "plain_name p \<longleftrightarrow> p \<noteq> [] \<and> \<not> is_quote (hd p) \<and>
     CHR ''('' \<notin> set p \<and> CHR ''.'' \<notin> set p \<and> CHR ''|'' \<notin> set p"

section \<open>Lemmas\<close>

lemma js_get_falsy: "\<not> truthy v \<Longrightarrow> \<not> truthy (js_get v k)"
  by (cases v) auto

lemma resolve_path_single [simp]: "resolve_path pl [k] = (if truthy pl then js_get pl k else pl)"
  by (simp add: resolve_path_def)

lemma resolve_single_truthy: "truthy (resolve_path pl [k]) \<longleftrightarrow> truthy (js_get pl k)"
  by (auto dest: js_get_falsy)

lemma resolve_single_value: "truthy (js_get pl k) \<Longrightarrow> resolve_path pl [k] = js_get pl k"
  using js_get_falsy by fastforce

text \<open>A stage that names a path without an argument list.\<close>

lemma stage_path:
  assumes "CHR ''('' \<notin> set cval" "cval = [] \<or> \<not> is_quote (hd cval)"
  shows "stage t pl acc cval =
    (let d = resolve_path pl (js_split CHR ''.'' cval) in
     if truthy d then Inr d
     else (case helpers t cval of None \<Rightarrow> Inr JUndef | Some h \<Rightarrow> h acc []))"
  using assms by (auto simp: stage_def Let_def split: option.splits)

lemma stage_plain:
  "plain_name p \<Longrightarrow> stage t pl acc p =
    (if truthy (js_get pl p) then Inr (js_get pl p)
     else (case helpers t p of None \<Rightarrow> Inr JUndef | Some h \<Rightarrow> h acc []))"
proof -
  assume p: "plain_name p"
  then have "js_split CHR ''.'' p = [p]" by (simp add: plain_name_def)
  with p show ?thesis
    by (auto simp: plain_name_def stage_path Let_def resolve_single_value dest: js_get_falsy)
qed

text \<open>A stage \<open>name(args)\<close>: a truthy path is called, otherwise the helper.\<close>

lemma stage_call:
  assumes "CHR ''('' \<notin> set name" "name = [] \<or> \<not> is_quote (hd name)"
  shows "stage t pl acc (name @ CHR ''('' # args @ '')'') =
    (let d = resolve_path pl (js_split CHR ''.'' name) in
     if \<not> truthy d then (case helpers t name of None \<Rightarrow> Inr JUndef | Some h \<Rightarrow> h acc (js_split CHR '','' args))
     else call_value t d acc (js_split CHR '','' args))"
proof -
  have idx: "index_of CHR ''('' (name @ CHR ''('' # args @ '')'') = Some (length name)"
    using assms(1) by (induction name) auto
  have hd: "name @ CHR ''('' # args @ '')'' \<noteq> [] \<and> \<not> is_quote (hd (name @ CHR ''('' # args @ '')''))"
    using assms(2) by (cases name) (auto simp: is_quote_def)
  have sv: "js_substring (name @ CHR ''('' # args @ '')'') 0 (int (length name)) = name"
    by (simp add: js_substring_take_drop)
  have ps: "js_substring (name @ CHR ''('' # args @ '')'') (int (length name) + 1)
              (1 + (int (length name) + int (length args))) = args"
    by (simp add: js_substring_take_drop nat_add_distrib)
  show ?thesis
    using hd by (simp add: stage_def idx sv ps Let_def split: option.splits)
qed

lemma run_stages_append:
  "run_stages t pl acc (xs @ ys) =
   (case run_stages t pl acc xs of Inl e \<Rightarrow> Inl e | Inr v \<Rightarrow> run_stages t pl v ys)"
  by (induction xs arbitrary: acc) (auto split: sum.splits)

lemma pipe_keys_plain: "CHR ''|'' \<notin> set s \<Longrightarrow> s \<noteq> ''raw'' \<Longrightarrow> pipe_keys s = [s, ''encode'']"
  by (simp add: pipe_keys_def)

lemma pipe_keys_raw: "CHR ''|'' \<notin> set s \<Longrightarrow> pipe_keys (s @ ''|raw'') = [s, ''raw'']"
proof -
  assume "CHR ''|'' \<notin> set s"
  then have "js_split CHR ''|'' (s @ ''|raw'') = [s, ''raw'']"
    by (induction s) (auto simp: js_split_Cons_other)
  then show ?thesis by (simp add: pipe_keys_def)
qed

lemma plain_encode_raw: "plain_name ''encode''" "plain_name ''raw''"
  by (simp_all add: plain_name_def is_quote_def)

lemma plain_not_raw: "plain_name p \<Longrightarrow> CHR ''|'' \<notin> set p"
  by (simp add: plain_name_def)

text \<open>The implicit last stage: the payload's own \<open>encode\<close> field, if truthy, wins over the helper.\<close>

lemma stage_encode:
  "stage t pl acc ''encode'' =
    (if truthy (js_get pl ''encode'') then Inr (js_get pl ''encode'')
     else (case helpers t ''encode'' of None \<Rightarrow> Inr JUndef | Some h \<Rightarrow> h acc []))"
  by (rule stage_plain) (simp add: plain_encode_raw)

lemma stage_raw:
  "stage t pl acc ''raw'' =
    (if truthy (js_get pl ''raw'') then Inr (js_get pl ''raw'')
     else (case helpers t ''raw'' of None \<Rightarrow> Inr JUndef | Some h \<Rightarrow> h acc []))"
  by (rule stage_plain) (simp add: plain_encode_raw)

lemma sentence_plain:
  "plain_name p \<Longrightarrow> p \<noteq> ''raw'' \<Longrightarrow> process_sentence t pl (Some p) =
     (case stage t pl (JStr []) p of Inl e \<Rightarrow> Inl e | Inr v \<Rightarrow> stage t pl v ''encode'')"
  by (simp add: process_sentence_def pipe_keys_plain plain_not_raw split: sum.splits)

lemma digits_plain_name: "w \<noteq> [] \<Longrightarrow> list_all is_digit w \<Longrightarrow> plain_name w \<and> w \<noteq> ''raw''"
  by (cases w) (auto simp: plain_name_def is_quote_def is_digit_def list_all_iff)

lemmas sentence_eval_simps = stage_plain stage_encode stage_raw sentence_plain encode_helper_eq

lemma plain_name_call: "plain_name p \<Longrightarrow> CHR ''('' \<notin> set p \<and> \<not> is_quote (hd p) \<and> js_split CHR ''.'' p = [p]"
  by (simp add: plain_name_def)

lemma pipe_keys_call:
  "plain_name p \<Longrightarrow> CHR ''|'' \<notin> set args \<Longrightarrow>
   pipe_keys (p @ CHR ''('' # args @ '')'') = [p @ CHR ''('' # args @ '')'', ''encode'']"
  by (rule pipe_keys_plain) (auto simp: plain_name_def)

section \<open>Properties of the Sentence Evaluator\<close>

text \<open>
  C2: an output expression naming a payload field that holds a non-empty string
  renders the string HTML-escaped, through the implicit \<open>encode\<close> stage.
\<close>

theorem output_escaped:
  assumes "builtins_intact t" "plain_name p" "p \<noteq> ''raw''"
    and "js_get pl p = JStr s" "s \<noteq> []" "\<not> truthy (js_get pl ''encode'')"
  shows "process_sentence t pl (Some p) = Inr (JStr (html_escape s))"
  using assms by (simp add: sentence_eval_simps builtins_intact_def)

theorem output_escaped_witness:
  "process_sentence (new_tangular (\<lambda>_ _ _. Inr JUndef)) (JObj [(''name'', JStr ''<b>world</b>'')])
     (Some ''name'') = Inr (JStr ''&lt;b&gt;world&lt;/b&gt;'')"
proof -
  have "process_sentence (new_tangular (\<lambda>_ _ _. Inr JUndef)) (JObj [(''name'', JStr ''<b>world</b>'')])
     (Some ''name'') = Inr (JStr (html_escape ''<b>world</b>''))"
    by (rule output_escaped)
       (simp_all add: new_tangular_intact plain_name_def is_quote_def)
  then show ?thesis by (simp add: html_escape_simps escape_char_def)
qed

text \<open>
  C3: an expression ending in the \<open>raw\<close> stage renders the field's string unescaped.
\<close>

theorem output_raw:
  assumes "builtins_intact t" "plain_name p"
    and "js_get pl p = JStr s" "s \<noteq> []" "\<not> truthy (js_get pl ''raw'')"
  shows "process_sentence t pl (Some (p @ ''|raw'')) = Inr (JStr s)"
  using assms
  by (simp add: process_sentence_def pipe_keys_raw plain_not_raw sentence_eval_simps
                builtins_intact_def raw_helper_def)

theorem output_raw_witness:
  "process_sentence (new_tangular (\<lambda>_ _ _. Inr JUndef)) (JObj [(''name'', JStr ''<b>world</b>'')])
     (Some ''name|raw'') = Inr (JStr ''<b>world</b>'')"
  using output_raw [of "new_tangular (\<lambda>_ _ _. Inr JUndef)" "''name''"
                       "JObj [(''name'', JStr ''<b>world</b>'')]" "''<b>world</b>''"]
  by (simp add: new_tangular_intact plain_name_def is_quote_def)

text \<open>
  C4: a path whose payload value is falsy (missing, \<open>0\<close>, the empty string,
  \<open>false\<close>, \<open>null\<close>) and that names no helper evaluates to \<open>undefined\<close>,
  without an error: \<open>!deepObject\<close> sends every falsy value to the registry.
\<close>

theorem falsy_path_undefined:
  assumes "builtins_intact t" "plain_name p" "p \<noteq> ''raw''" "helpers t p = None"
    and "\<not> truthy (js_get pl p)" "\<not> truthy (js_get pl ''encode'')"
  shows "process_sentence t pl (Some p) = Inr JUndef"
  using assms by (simp add: sentence_eval_simps builtins_intact_def)

theorem falsy_path_undefined_witness:
  "process_sentence (new_tangular (\<lambda>_ _ _. Inr JUndef)) (JObj [(''count'', JNum 0)])
     (Some ''count'') = Inr JUndef"
  by (rule falsy_path_undefined) (simp_all add: builtins_intact_def plain_name_def is_quote_def new_tangular_def)

text \<open>
  C5: a payload field named \<open>encode\<close> with a truthy value replaces the implicit
  escaping stage: every plain output expression then evaluates to that field.
\<close>

theorem payload_encode_overrides:
  assumes "plain_name p" "p \<noteq> ''raw''" "truthy (js_get pl p)" "truthy (js_get pl ''encode'')"
  shows "process_sentence t pl (Some p) = Inr (js_get pl ''encode'')"
  using assms by (simp add: sentence_eval_simps)

theorem payload_encode_overrides_witness:
  "process_sentence (new_tangular (\<lambda>_ _ _. Inr JUndef))
     (JObj [(''name'', JStr ''<b>x</b>''), (''encode'', JStr ''1'')]) (Some ''name'')
     = Inr (JStr ''1'')"
  using payload_encode_overrides [of "''name''" "JObj [(''name'', JStr ''<b>x</b>''), (''encode'', JStr ''1'')]"
          "new_tangular (\<lambda>_ _ _. Inr JUndef)"]
  by (simp add: plain_name_def is_quote_def)

text \<open>
  C6: calling a truthy payload value that is not a function, \<open>{{ p() }}\<close>, raises a
  \<open>TypeError\<close>.
\<close>

theorem call_non_function_error:
  assumes "plain_name p" "truthy (js_get pl p)" "\<forall>i src. js_get pl p \<noteq> JFun i src"
  shows "process_sentence t pl (Some (p @ ''()'')) = Inl (TypeError ''deepObject is not a function'')"
proof -
  have "truthy pl" using assms(2) js_get_falsy by blast
  then have s: "stage t pl (JStr []) (p @ ''()'') = Inl (TypeError ''deepObject is not a function'')"
    using assms plain_name_call [OF assms(1)] stage_call [where name = p and args = "[]" and t = t and pl = pl]
    by (simp add: resolve_single_value call_value_def split: jsval.splits)
  have "pipe_keys (p @ ''()'') = [p @ ''()'', ''encode'']"
    using pipe_keys_call [OF assms(1), of "[]"] by simp
  with s show ?thesis by (simp add: process_sentence_def)
qed

theorem call_non_function_error_witness:
  "process_sentence (new_tangular (\<lambda>_ _ _. Inr JUndef)) (JObj [(''name'', JStr ''John'')]) (Some ''name()'')
     = Inl (TypeError ''deepObject is not a function'')"
  using call_non_function_error [of "''name''" "JObj [(''name'', JStr ''John'')]" "new_tangular (\<lambda>_ _ _. Inr JUndef)"]
  by (simp add: plain_name_def is_quote_def)

end
