(* ===== verification/Cond_Eval.thy ===== *)
theory Cond_Eval
  imports Sentence_Eval Cond_Parser
begin

text \<open>
  The Condition Evaluator: \<open>Tangular._processInstruction\<close> compares the values of
  the two operand sentences of an Instruction, and \<open>Tangular._processCondition\<close>
  folds AND and OR nodes left to right and unwraps a NONE node with
  \<open>condition.values.shift()\<close>, which removes the value from the compiled tree. The
  evaluator therefore returns, with its result, the condition tree as the evaluation
  left it; an exception keeps the changes made before it. Its result is shown equal to
  \<open>cond_sem\<close>, the store-free short-circuit semantics of the specification.
\<close>

text \<open>The fields of a node read as a JavaScript object.\<close>

fun node_operator :: "cnode \<Rightarrow> operator option" where
  "node_operator (CInstr io) = Some (ioperator io)"
| "node_operator (CCond op _ _) = Some op"
| "node_operator _ = None"

fun node_left :: "cnode \<Rightarrow> string option" where
  "node_left (CInstr io) = leftValue io"
| "node_left _ = None"

fun node_right :: "cnode \<Rightarrow> string option" where
  "node_right (CInstr io) = rightValue io"
| "node_right _ = None"

text \<open>Both operand sentences, left first, then the comparison.\<close>

definition compare_sides ::
  "tangular \<Rightarrow> jsval \<Rightarrow> cnode \<Rightarrow> (jsval \<Rightarrow> jsval \<Rightarrow> bool) \<Rightarrow> err + bool" where
  "compare_sides t pl n cmp =
     (case process_sentence t pl (node_left n) of
        Inl e \<Rightarrow> Inl e
      | Inr x \<Rightarrow> (case process_sentence t pl (node_right n) of
                   Inl e \<Rightarrow> Inl e
                 | Inr y \<Rightarrow> Inr (cmp x y)))"

text \<open>\<open>_processInstruction\<close>.\<close>

definition process_instruction :: "tangular \<Rightarrow> jsval \<Rightarrow> cnode \<Rightarrow> err + bool" where
  "process_instruction t pl n =
     (case n of
        CStr s \<Rightarrow> (case process_sentence t pl (Some s) of Inl e \<Rightarrow> Inl e | Inr v \<Rightarrow> Inr (truthy v))
      | CUndef \<Rightarrow> (case process_sentence t pl None of Inl e \<Rightarrow> Inl e | Inr v \<Rightarrow> Inr (truthy v))
      | _ \<Rightarrow>
        (case node_operator n of
           Some OpEq \<Rightarrow> compare_sides t pl n loose_eq
         | Some OpEqEq \<Rightarrow> compare_sides t pl n loose_eq
         | Some OpEqEqEq \<Rightarrow> compare_sides t pl n strict_eq
         | Some OpNot \<Rightarrow>
             (case process_sentence t pl (node_right n) of Inl e \<Rightarrow> Inl e | Inr v \<Rightarrow> Inr (\<not> truthy v))
         | Some OpNe \<Rightarrow> compare_sides t pl n (\<lambda>x y. \<not> loose_eq x y)
         | Some OpNeEq \<Rightarrow> compare_sides t pl n (\<lambda>x y. \<not> strict_eq x y)
         | Some OpLt \<Rightarrow> compare_sides t pl n (\<lambda>x y. js_less x y = Some True)
         | Some OpGt \<Rightarrow> compare_sides t pl n (\<lambda>x y. js_less y x = Some True)
         | Some OpLe \<Rightarrow> compare_sides t pl n (\<lambda>x y. js_less y x = Some False)
         | Some OpGe \<Rightarrow> compare_sides t pl n (\<lambda>x y. js_less x y = Some False)
         | _ \<Rightarrow> Inr False))"

text \<open>
  \<open>_processCondition\<close>, with the tree it leaves behind. The \<open>reduce\<close> over the
  values of an OR (AND) node uses \<open>acc || f()\<close> (\<open>acc && f()\<close>): once the
  accumulator is true (false) the remaining values are passed over without evaluation.
\<close>

fun eval_cond :: "tangular \<Rightarrow> jsval \<Rightarrow> cnode \<Rightarrow> (err + bool) \<times> cnode"
and eval_or :: "tangular \<Rightarrow> jsval \<Rightarrow> bool \<Rightarrow> cnode list \<Rightarrow> (err + bool) \<times> cnode list"
and eval_and :: "tangular \<Rightarrow> jsval \<Rightarrow> bool \<Rightarrow> cnode list \<Rightarrow> (err + bool) \<times> cnode list" where
  "eval_cond t pl CUndef = (Inl (TypeError ''Cannot read properties of undefined''), CUndef)"
| "eval_cond t pl (CCond OpOr vs k) = (case eval_or t pl False vs of (r, vs') \<Rightarrow> (r, CCond OpOr vs' k))"
| "eval_cond t pl (CCond OpAnd vs k) = (case eval_and t pl True vs of (r, vs') \<Rightarrow> (r, CCond OpAnd vs' k))"
| "eval_cond t pl (CCond OpNone [] k) = (fst (eval_cond t pl CUndef), CCond OpNone [] k)"
| "eval_cond t pl (CCond OpNone (v # vs) k) = (fst (eval_cond t pl v), CCond OpNone vs k)"
| "eval_cond t pl n = (process_instruction t pl n, n)"
| "eval_or t pl acc [] = (Inr acc, [])"
| "eval_or t pl acc (v # vs) =
     (if acc then (case eval_or t pl acc vs of (r, vs') \<Rightarrow> (r, v # vs'))
      else (case eval_cond t pl v of
              (Inl e, v') \<Rightarrow> (Inl e, v' # vs)
            | (Inr b, v') \<Rightarrow> (case eval_or t pl b vs of (r, vs') \<Rightarrow> (r, v' # vs'))))"
| "eval_and t pl acc [] = (Inr acc, [])"
| "eval_and t pl acc (v # vs) =
     (if \<not> acc then (case eval_and t pl acc vs of (r, vs') \<Rightarrow> (r, v # vs'))
      else (case eval_cond t pl v of
              (Inl e, v') \<Rightarrow> (Inl e, v' # vs)
            | (Inr b, v') \<Rightarrow> (case eval_and t pl b vs of (r, vs') \<Rightarrow> (r, v' # vs'))))"

text \<open>A tree in which no NONE node is left to be consumed.\<close>

fun none_free :: "cnode \<Rightarrow> bool" where
  "none_free (CCond OpNone _ _) = False"
| "none_free (CCond _ vs _) = (\<forall>v \<in> set vs. none_free v)"
| "none_free _ = True"

text \<open>
  The reference semantics of a condition tree: the left-to-right, short-circuit reading of
  AND and OR that the specification gives, with no condition store; a NONE node stands for
  its first value. It is the abstract counterpart of \<open>eval_cond\<close>.
\<close>

fun cond_sem :: "tangular \<Rightarrow> jsval \<Rightarrow> cnode \<Rightarrow> err + bool"
and any_sem :: "tangular \<Rightarrow> jsval \<Rightarrow> cnode list \<Rightarrow> err + bool"
and all_sem :: "tangular \<Rightarrow> jsval \<Rightarrow> cnode list \<Rightarrow> err + bool" where
  "cond_sem t pl CUndef = Inl (TypeError ''Cannot read properties of undefined'')"
| "cond_sem t pl (CCond OpOr vs k) = any_sem t pl vs"
| "cond_sem t pl (CCond OpAnd vs k) = all_sem t pl vs"
| "cond_sem t pl (CCond OpNone [] k) = Inl (TypeError ''Cannot read properties of undefined'')"
| "cond_sem t pl (CCond OpNone (v # vs) k) = cond_sem t pl v"
| "cond_sem t pl n = process_instruction t pl n"
| "any_sem t pl [] = Inr False"
| "any_sem t pl (v # vs) =
     (case cond_sem t pl v of Inl e \<Rightarrow> Inl e | Inr b \<Rightarrow> if b then Inr True else any_sem t pl vs)"
| "all_sem t pl [] = Inr True"
| "all_sem t pl (v # vs) =
     (case cond_sem t pl v of Inl e \<Rightarrow> Inl e | Inr b \<Rightarrow> if b then all_sem t pl vs else Inr False)"

section \<open>Lemmas\<close>

lemma eval_or_True [simp]: "eval_or t pl True vs = (Inr True, vs)"
  by (induction vs) auto

lemma eval_and_False [simp]: "eval_and t pl False vs = (Inr False, vs)"
  by (induction vs) auto

lemma eval_cond_instr [simp]: "eval_cond t pl (CInstr io) = (process_instruction t pl (CInstr io), CInstr io)"
  by simp

lemma eval_cond_str [simp]: "eval_cond t pl (CStr w) = (process_instruction t pl (CStr w), CStr w)"
  by simp

section \<open>Properties of the Condition Evaluator\<close>

text \<open>
  C15: an AND node whose first value evaluates to false is false, and none of its other
  values is evaluated: they are left as they were, and an error they would raise does
  not occur.
\<close>

theorem and_short_circuit:
  assumes "fst (eval_cond t pl v) = Inr False"
  shows "eval_cond t pl (CCond OpAnd (v # vs) k) = (Inr False, CCond OpAnd (snd (eval_cond t pl v) # vs) k)"
  using assms by (cases "eval_cond t pl v") simp

theorem and_short_circuit_witness:
  "eval_cond (new_tangular (\<lambda>_ _ _. Inr JUndef)) (JObj []) (CCond OpAnd [CStr ''missing'', CUndef] 0) =
     (Inr False, CCond OpAnd [CStr ''missing'', CUndef] 0)"
proof -
  have f: "fst (eval_cond (new_tangular (\<lambda>_ _ _. Inr JUndef)) (JObj []) (CStr ''missing'')) = Inr False"
    by (simp add: process_instruction_def sentence_eval_simps plain_name_def is_quote_def new_tangular_def
                  encode_helper_eq)
  show ?thesis using and_short_circuit [OF f, of "[CUndef]" 0] by simp
qed

lemma or_short_circuit:
  "fst (eval_cond t pl v) = Inr True \<Longrightarrow>
   eval_cond t pl (CCond OpOr (v # vs) k) = (Inr True, CCond OpOr (snd (eval_cond t pl v) # vs) k)"
  by (cases "eval_cond t pl v") simp

text \<open>
  C16: evaluating a NONE node removes its value from the tree, so the next evaluation
  of the same node reads \<open>undefined\<close> and raises a \<open>TypeError\<close>.
\<close>

theorem none_node_consumed:
  "eval_cond t pl (snd (eval_cond t pl (CCond OpNone [v] k))) =
     (Inl (TypeError ''Cannot read properties of undefined''), CCond OpNone [] k)"
  by simp

text \<open>
  C17: a condition tree without NONE nodes is left unchanged by its evaluation, so it
  can be evaluated again with the same result.
\<close>

lemma eval_none_free:
  "none_free c \<Longrightarrow> snd (eval_cond t pl c) = c"
  "\<forall>v \<in> set vs. none_free v \<Longrightarrow> snd (eval_or t pl acc vs) = vs"
  "\<forall>v \<in> set vs. none_free v \<Longrightarrow> snd (eval_and t pl acc vs) = vs"
proof (induction t pl c and t pl acc vs and t pl acc vs rule: eval_cond_eval_or_eval_and.induct)
  case (2 t pl vs k)
  then show ?case by (auto split: prod.splits)
next
  case (3 t pl vs k)
  then show ?case by (auto split: prod.splits)
next
  case (8 t pl acc v vs)
  then show ?case by (auto split: prod.splits sum.splits)
next
  case (10 t pl acc v vs)
  then show ?case by (auto split: prod.splits sum.splits)
qed auto

theorem condition_read_only:
  assumes "none_free c"
  shows "eval_cond t pl c = (fst (eval_cond t pl c), c)"
  using eval_none_free(1) [OF assms, of t pl] by (metis prod.collapse)

theorem condition_read_only_witness:
  "none_free (CCond OpAnd [CStr ''a'', CStr ''b''] 2) \<and>
   eval_cond (new_tangular (\<lambda>_ _ _. Inr JUndef)) (JObj []) (CCond OpAnd [CStr ''a'', CStr ''b''] 2) =
     (fst (eval_cond (new_tangular (\<lambda>_ _ _. Inr JUndef)) (JObj []) (CCond OpAnd [CStr ''a'', CStr ''b''] 2)),
      CCond OpAnd [CStr ''a'', CStr ''b''] 2)"
  using condition_read_only [of "CCond OpAnd [CStr ''a'', CStr ''b''] 2"
                                "new_tangular (\<lambda>_ _ _. Inr JUndef)" "JObj []"] by simp

text \<open>The evaluator computes the reference semantics, whatever the store it threads.\<close>

lemma eval_cond_sem:
  "fst (eval_cond t pl c) = cond_sem t pl c"
  "fst (eval_or t pl acc vs) = (if acc then Inr True else any_sem t pl vs)"
  "fst (eval_and t pl acc vs) = (if acc then all_sem t pl vs else Inr False)"
proof (induction t pl c and t pl acc vs and t pl acc vs rule: eval_cond_eval_or_eval_and.induct)
  case (8 t pl acc v vs)
  then show ?case by (cases "eval_cond t pl v") (auto split: prod.splits sum.splits)
next
  case (10 t pl acc v vs)
  then show ?case by (cases "eval_cond t pl v") (auto split: prod.splits sum.splits)
qed (auto split: prod.splits)

lemma any_sem_Inr:
  "\<forall>v \<in> set vs. \<exists>b. cond_sem t pl v = Inr b \<Longrightarrow>
   any_sem t pl vs = Inr (\<exists>v \<in> set vs. cond_sem t pl v = Inr True)"
  by (induction vs) auto

lemma all_sem_Inr:
  "\<forall>v \<in> set vs. \<exists>b. cond_sem t pl v = Inr b \<Longrightarrow>
   all_sem t pl vs = Inr (\<forall>v \<in> set vs. cond_sem t pl v = Inr True)"
  by (induction vs) auto

text \<open>
  C34: the result of \<open>_processCondition\<close> is the reference short-circuit semantics of
  the tree: the store threaded through the \<open>reduce\<close> and the accumulator passed over
  the values after the deciding one do not change it.
\<close>

theorem eval_cond_refines_sem: "fst (eval_cond t pl c) = cond_sem t pl c"
  by (rule eval_cond_sem(1))

text \<open>
  A consequence: when every value of an OR (AND) node evaluates without error, the node
  is true exactly when some (every) value is true.
\<close>

theorem logical_nodes_sem:
  assumes "\<forall>v \<in> set vs. \<exists>b. fst (eval_cond t pl v) = Inr b"
  shows "fst (eval_cond t pl (CCond OpOr vs k)) = Inr (\<exists>v \<in> set vs. fst (eval_cond t pl v) = Inr True) \<and>
         fst (eval_cond t pl (CCond OpAnd vs k)) = Inr (\<forall>v \<in> set vs. fst (eval_cond t pl v) = Inr True)"
  using assms by (simp only: eval_cond_sem(1)) (simp add: any_sem_Inr all_sem_Inr)

theorem logical_nodes_sem_witness:
  "fst (eval_cond (new_tangular (\<lambda>_ _ _. Inr JUndef)) (JObj [(''a'', JBool False), (''b'', JBool True)])
        (CCond OpOr [CStr ''a'', CStr ''b''] 0)) = Inr True \<and>
   fst (eval_cond (new_tangular (\<lambda>_ _ _. Inr JUndef)) (JObj [(''a'', JBool False), (''b'', JBool True)])
        (CCond OpAnd [CStr ''a'', CStr ''b''] 0)) = Inr False"
proof -
  let ?t = "new_tangular (\<lambda>_ _ _. Inr JUndef)" and ?pl = "JObj [(''a'', JBool False), (''b'', JBool True)]"
  have v: "fst (eval_cond ?t ?pl (CStr ''a'')) = Inr False" "fst (eval_cond ?t ?pl (CStr ''b'')) = Inr True"
    by (simp_all add: process_instruction_def sentence_eval_simps plain_name_def is_quote_def new_tangular_def)
  have h: "\<forall>v \<in> set [CStr ''a'', CStr ''b'']. \<exists>b. fst (eval_cond ?t ?pl v) = Inr b"
    using v by simp blast
  show ?thesis
    using logical_nodes_sem [OF h, of 0] v by simp
qed

text \<open>
  C32: a number written in a comparison, as in \<open>a===1\<close>, is not a number literal:
  the sentence evaluator looks its digits up as a payload path and then as a helper
  name, so when neither exists the comparison compares the left operand with
  \<open>undefined\<close>.
\<close>

theorem numeric_literal_is_path:
  assumes "builtins_intact t" "w \<noteq> []" "list_all is_digit w" "helpers t w = None"
    and "\<not> truthy (js_get pl w)" "\<not> truthy (js_get pl ''encode'')"
    and "ioperator io = OpEqEqEq" "rightValue io = Some w"
  shows "process_instruction t pl (CInstr io) =
           (case process_sentence t pl (leftValue io) of Inl e \<Rightarrow> Inl e | Inr v \<Rightarrow> Inr (strict_eq v JUndef))"
proof -
  have "process_sentence t pl (Some w) = Inr JUndef"
    using assms(1,4,5,6) digits_plain_name [OF assms(2,3)] by (simp add: sentence_eval_simps builtins_intact_def)
  with assms(7,8) show ?thesis
    by (simp add: process_instruction_def compare_sides_def split: sum.splits)
qed

theorem numeric_literal_is_path_witness:
  "process_instruction (new_tangular (\<lambda>_ _ _. Inr JUndef)) (JObj [(''a'', JNum 1)])
     (CInstr \<lparr>leftValue = Some ''a'', rightValue = Some ''1'', ioperator = OpEqEqEq, iindex = 1\<rparr>) = Inr False"
proof -
  let ?t = "new_tangular (\<lambda>_ _ _. Inr JUndef)"
  have a: "process_sentence ?t (JObj [(''a'', JNum 1)]) (Some ''a'') = Inr (JNum 1)"
    by (simp add: sentence_eval_simps plain_name_def is_quote_def new_tangular_def)
  show ?thesis
    using numeric_literal_is_path [of ?t "''1''" "JObj [(''a'', JNum 1)]"
            "\<lparr>leftValue = Some ''a'', rightValue = Some ''1'', ioperator = OpEqEqEq, iindex = 1\<rparr>"] a
    by (simp add: builtins_intact_def new_tangular_def is_digit_def strict_eq_def)
qed

end
