(* ===== verification/Block_Eval.thy ===== *)
theory Block_Eval
  imports Block_Builder Cond_Eval
begin

text \<open>
  The block evaluator of \<open>src/lib/tangular.ts\<close>: \<open>_processBloc\<close> (the \<open>reduce\<close> over a
  sibling list, with its \<open>lastReponse\<close> and the \<open>operator\<close> signal that skips the
  rest of the list), \<open>_processEach\<close> (the \<open>for ... in\<close> loop with its scope and its
  \<open>break\<close>), and the closure returned by \<open>compile\<close>, followed by the blank-line
  removal. The condition store of the compiled template is threaded through every
  evaluation, since evaluating a NONE condition changes it. The theory ends with the
  repeated calls of one compiled closure: read-only when no NONE condition is stored,
  failing after a bounded number of calls when the first block is an \<open>if\<close> on one.
\<close>

section \<open>Reading the compiled blocks\<close>

text \<open>The condition object a block's \<open>instruction\<close> names (\<open>undefined\<close> when absent).\<close>

definition cond_node :: "cnode list \<Rightarrow> binstr option \<Rightarrow> cnode" where
  "cond_node st bi = (case bi of
      Some (ICond n) \<Rightarrow> (case nth_opt st n of Some c \<Rightarrow> c | None \<Rightarrow> CUndef)
    | Some (IText s) \<Rightarrow> CStr s
    | None \<Rightarrow> CUndef)"

text \<open>Writing the condition back after its evaluation: the object is shared by reference.\<close>

definition store_back :: "cnode list \<Rightarrow> binstr option \<Rightarrow> cnode \<Rightarrow> cnode list" where
  "store_back st bi c = (case bi of Some (ICond n) \<Rightarrow> st[n := c] | _ \<Rightarrow> st)"

text \<open>\<open>instruction\<close> as \<open>_processSentence\<close> receives it.\<close>

definition text_of :: "binstr option \<Rightarrow> string option" where
  "text_of bi = (case bi of Some (IText s) \<Rightarrow> Some s | _ \<Rightarrow> None)"

text \<open>\<open>String(x)\<close> of an element of \<open>condition.values\<close>.\<close>

fun node_str :: "cnode \<Rightarrow> string" where
  "node_str (CStr s) = s"
| "node_str CUndef = ''undefined''"
| "node_str _ = ''[object Object]''"

definition value_at :: "cnode list \<Rightarrow> nat \<Rightarrow> cnode" where
  "value_at vs i = (case nth_opt vs i of Some v \<Rightarrow> v | None \<Rightarrow> CUndef)"

text \<open>The scope of one iteration: \<open>{...payload, [key]: value[n], '$index': n}\<close>.\<close>

definition each_scope :: "jsval \<Rightarrow> string \<Rightarrow> jsval \<Rightarrow> string \<Rightarrow> jsval" where
  "each_scope pl key value n = JObj (obj_set ''$index'' (JStr n) (obj_set key (js_get value n) (spread pl)))"

text \<open>\<open>template += r3\<close> with \<open>r3 : string | undefined\<close>.\<close>

definition each_text :: "string option \<Rightarrow> string" where
  "each_text r = (case r of Some s \<Rightarrow> s | None \<Rightarrow> ''undefined'')"

section \<open>The evaluator\<close>

text \<open>
  \<open>eval_blocs t pl bs (tpl, op) lr st\<close> is the \<open>reduce\<close> of \<open>_processBloc\<close> from the
  accumulator \<open>{template: tpl, operator: op}\<close> with \<open>lastReponse = lr\<close>;
  \<open>eval_bloc\<close> is one call of its callback and returns the text it appends, the
  operator it sets (\<open>KNone\<close>: unchanged) and the new \<open>lastReponse\<close>;
  \<open>eval_each\<close> is the loop of \<open>_processEach\<close> over the keys left.
\<close>

function eval_blocs ::
    "tangular \<Rightarrow> jsval \<Rightarrow> bloc list \<Rightarrow> string \<times> pkey \<Rightarrow> bool \<Rightarrow> cnode list \<Rightarrow>
     (err + string \<times> pkey) \<times> cnode list"
and eval_bloc ::
    "tangular \<Rightarrow> jsval \<Rightarrow> bloc \<Rightarrow> bool \<Rightarrow> cnode list \<Rightarrow> (err + string \<times> pkey \<times> bool) \<times> cnode list"
and eval_each ::
    "tangular \<Rightarrow> jsval \<Rightarrow> string \<Rightarrow> jsval \<Rightarrow> bloc list \<Rightarrow> string list \<Rightarrow> string \<Rightarrow> cnode list \<Rightarrow>
     (err + string) \<times> cnode list"
where
  "eval_blocs t pl [] acc lr st = (Inr acc, st)"
| "eval_blocs t pl (b # bs) acc lr st =
     (if snd acc \<noteq> KNone then (Inr acc, st)
      else (case eval_bloc t pl b lr st of
              (Inl e, st') \<Rightarrow> (Inl e, st')
            | (Inr (out, op, lr'), st') \<Rightarrow> eval_blocs t pl bs (fst acc @ out, op) lr' st'))"
| "eval_bloc t pl (Bloc k cs bi h) lr st =
     (if k = KIf \<or> (k = KElseIf \<and> \<not> lr) then
        (case eval_cond t pl (cond_node st bi) of
           (Inl e, c') \<Rightarrow> (Inl e, store_back st bi c')
         | (Inr r, c') \<Rightarrow>
             (if r then
                (case eval_blocs t pl cs ([], KNone) False (store_back st bi c') of
                   (Inl e, st') \<Rightarrow> (Inl e, st')
                 | (Inr (s, op), st') \<Rightarrow> (Inr (s, op, True), st'))
              else (Inr ([], KNone, False), store_back st bi c')))
      else if k = KElseIf then (Inr ([], KNone, lr), st)
      else if k = KElse then
        (if lr then (Inr ([], KNone, lr), st)
         else (case eval_blocs t pl cs ([], KNone) False st of
                 (Inl e, st') \<Rightarrow> (Inl e, st')
               | (Inr (s, op), st') \<Rightarrow> (Inr (s, op, lr), st')))
      else if k = KForeach \<or> k = KFor then
        (case cond_node st bi of
           CCond opr vs _ \<Rightarrow>
             (let key = node_str (value_at vs 0); src = node_str (value_at vs 1)
              in case process_sentence t pl (Some (src @ ''|raw'')) of
                   Inl e \<Rightarrow> (Inl e, st)
                 | Inr value \<Rightarrow>
                     (if opr = OpIn then
                        (case eval_each t pl key value cs (for_in_keys value) [] st of
                           (Inl e, st') \<Rightarrow> (Inl e, st')
                         | (Inr s, st') \<Rightarrow> (Inr (each_text (Some s), KNone, lr), st'))
                      else (Inr (each_text None, KNone, lr), st)))
         | _ \<Rightarrow> (Inl (TypeError ''Cannot read properties of undefined (reading '0')''), st))
      else if k = KContinue \<or> k = KBreak then (Inr ([], k, lr), st)
      else if h then (Inr (case bi of Some (IText s) \<Rightarrow> s | _ \<Rightarrow> ''undefined'', KNone, lr), st)
      else (case process_sentence t pl (text_of bi) of
              Inl e \<Rightarrow> (Inl e, st)
            | Inr v \<Rightarrow> (Inr (js_to_string v, KNone, lr), st)))"
| "eval_each t pl key value cs [] acc st = (Inr acc, st)"
| "eval_each t pl key value cs (n # ns) acc st =
     (case eval_blocs t (each_scope pl key value n) cs ([], KNone) False st of
        (Inl e, st') \<Rightarrow> (Inl e, st')
      | (Inr (s, op), st') \<Rightarrow>
          (if op = KBreak then (Inr (acc @ s), st')
           else eval_each t pl key value cs ns (acc @ s) st'))"
  by pat_completeness auto
termination
  by (relation "measures
        [\<lambda>x. case x of Inl (_, _, bs, _) \<Rightarrow> size_list size bs
                    | Inr (Inl (_, _, b, _)) \<Rightarrow> size b
                    | Inr (Inr (_, _, _, _, cs, _)) \<Rightarrow> size_list size cs,
         \<lambda>x. case x of Inl _ \<Rightarrow> 0 | Inr (Inl _) \<Rightarrow> 0 | Inr (Inr (_, _, _, _, _, ns, _)) \<Rightarrow> Suc (length ns)]")
     auto

section \<open>Rendering\<close>

text \<open>
  The closure returned by \<open>compile\<close>, applied to a payload: the evaluation of the
  top-level list and the blank-line removal. It also returns the condition store as
  the evaluation left it, which the next call of the same closure starts from.
\<close>

definition run_compiled :: "tangular \<Rightarrow> jsval \<Rightarrow> bloc list \<times> cnode list \<Rightarrow> (err + string) \<times> cnode list" where
  "run_compiled t pl c =
     (case eval_blocs t pl (fst c) ([], KNone) False (snd c) of
        (Inl e, st') \<Rightarrow> (Inl e, st')
      | (Inr (s, _), st') \<Rightarrow> (Inr (strip_blank_lines s), st'))"

text \<open>\<open>render(template, payload)\<close>: \<open>compile(template)(payload)\<close>; \<open>None\<close> if compilation does not return.\<close>

definition render :: "tangular \<Rightarrow> string \<Rightarrow> jsval \<Rightarrow> (err + string) option" where
  "render t tpl pl =
     Option.bind (compile_blocs tpl) (\<lambda>r.
       case r of Inl e \<Rightarrow> Some (Inl e) | Inr c \<Rightarrow> Some (fst (run_compiled t pl c)))"

text \<open>
  \<open>renderAsync(template, payload)\<close>: \<open>compile(template)(payload, true)\<close>. The closure
  ignores its \<open>enableAsync\<close> argument, so the call returns the rendered string itself.
\<close>

definition render_async :: "tangular \<Rightarrow> string \<Rightarrow> jsval \<Rightarrow> (err + string) option" where
  "render_async t tpl pl =
     Option.bind (compile_blocs tpl) (\<lambda>r.
       case r of Inl e \<Rightarrow> Some (Inl e) | Inr c \<Rightarrow> Some ((\<lambda>pl' (enable_async :: bool). fst (run_compiled t pl' c)) pl True))"

text \<open>
  Successive calls of one compiled closure: the store each call starts from is the one
  the previous call left, whether that call returned or threw.
\<close>

fun repeat_calls :: "tangular \<Rightarrow> jsval \<Rightarrow> bloc list \<times> cnode list \<Rightarrow> nat \<Rightarrow> cnode list" where
  "repeat_calls t pl c 0 = snd c"
| "repeat_calls t pl c (Suc k) = snd (run_compiled t pl (fst c, repeat_calls t pl c k))"

text \<open>A block of literal template text.\<close>

fun is_text :: "bloc \<Rightarrow> bool" where
  "is_text (Bloc KNone [] (Some (IText s)) True) = True"
| "is_text _ = False"

text \<open>Entry \<open>n\<close> of the store is a NONE condition with at most \<open>m\<close> values left.\<close>

definition none_le :: "cnode list \<Rightarrow> nat \<Rightarrow> nat \<Rightarrow> bool" where
  "none_le st n m = (case nth_opt st n of Some (CCond OpNone vs _) \<Rightarrow> length vs \<le> m | _ \<Rightarrow> False)"

section \<open>Properties of the evaluator\<close>

lemma render_async_is_render: "render_async t tpl pl = render t tpl pl"
  by (simp add: render_async_def render_def)

lemmas eval_text_simps = each_scope_def obj_set_def spread_def text_of_def sentence_eval_simps plain_name_def
  is_quote_def new_tangular_def encode_helper_eq is_array_index_def dec_value_def digit_val_def is_digit_def
  html_escape_simps escape_char_def

text \<open>
  Once a sibling has set the operator signal, the rest of the list is passed over; a
  \<open>continue\<close> or \<open>break\<close> marker sets the signal unless an earlier sibling has.
\<close>

lemma eval_blocs_signal [simp]: "snd acc \<noteq> KNone \<Longrightarrow> eval_blocs t pl bs acc lr st = (Inr acc, st)"
  by (cases bs) auto

lemma eval_blocs_marker:
  assumes "m = KContinue \<or> m = KBreak"
  shows "eval_blocs t pl (pre @ Bloc m cs bi h # post) acc lr st =
           (case eval_blocs t pl pre acc lr st of
              (Inl e, st') \<Rightarrow> (Inl e, st')
            | (Inr (s, op), st') \<Rightarrow> (Inr (s, if op = KNone then m else op), st'))"
proof (induction pre arbitrary: acc lr st)
  case Nil
  from assms show ?case by (cases acc) auto
next
  case (Cons p pre)
  then show ?case by (cases acc) (auto split: prod.splits sum.splits)
qed

lemma store_back_same:
  "nth_opt st n = Some c \<Longrightarrow> store_back st (Some (ICond n)) c = st"
  using nth_opt_Some [of st n c] list_update_id [of st n] by (simp add: store_back_def)

lemma cond_node_ICond: "nth_opt st n = Some c \<Longrightarrow> cond_node st (Some (ICond n)) = c"
  by (simp add: cond_node_def)

text \<open>
  Reading a condition and writing it back unchanged leaves the store as it was; a store
  without NONE nodes is therefore left unchanged by every evaluation.
\<close>

lemma store_back_cond_node: "store_back st bi (cond_node st bi) = st"
proof (cases bi)
  case (Some b)
  then show ?thesis
  proof (cases b)
    case (ICond n)
    show ?thesis
    proof (cases "nth_opt st n")
      case None
      then have "length st \<le> n" by (induction st arbitrary: n) (auto simp: nth_opt_def split: if_splits)
      with Some ICond None show ?thesis by (simp add: store_back_def cond_node_def list_update_beyond)
    next
      case (Some c)
      with \<open>bi = Some b\<close> ICond show ?thesis
        using nth_opt_Some [OF Some] list_update_id [of st n] by (simp add: store_back_def cond_node_def)
    qed
  qed (simp add: store_back_def)
qed (simp add: store_back_def)

lemma none_free_cond_node: "list_all none_free st \<Longrightarrow> none_free (cond_node st bi)"
  by (auto simp: cond_node_def list_all_iff dest: nth_opt_Some split: option.splits binstr.splits)

lemma eval_store_read_only:
  "list_all none_free st \<Longrightarrow> snd (eval_blocs t pl bs acc lr st) = st"
  "list_all none_free st \<Longrightarrow> snd (eval_bloc t pl b lr st) = st"
  "list_all none_free st \<Longrightarrow> snd (eval_each t pl key vl cs ns acc' st) = st"
proof (induction t pl bs acc lr st and t pl b lr st and t pl key vl cs ns acc' st
       rule: eval_blocs_eval_bloc_eval_each.induct)
  case (2 t pl b bs acc lr st)
  then show ?case by (auto split: prod.splits sum.splits)
next
  case (3 t pl k cs bi h lr st)
  obtain r where ev: "eval_cond t pl (cond_node st bi) = (r, cond_node st bi)"
    using eval_none_free(1) [OF none_free_cond_node [OF "3.prems"]] by (metis prod.collapse)
  note sb = store_back_cond_node [of st bi]
  consider (c) "k = KIf \<or> k = KElseIf \<and> \<not> lr"
    | (el) "\<not> (k = KIf \<or> k = KElseIf \<and> \<not> lr)" "k \<noteq> KElseIf" "k = KElse" "\<not> lr"
    | (fe) "\<not> (k = KIf \<or> k = KElseIf \<and> \<not> lr)" "k \<noteq> KElseIf" "k \<noteq> KElse" "k = KForeach \<or> k = KFor"
    | (ot) "\<not> (k = KIf \<or> k = KElseIf \<and> \<not> lr)" "\<not> (k = KElse \<and> \<not> lr)" "\<not> (k = KForeach \<or> k = KFor)"
    by blast
  then show ?case
  proof cases
    case c
    have ih: "snd (eval_blocs t pl cs ([], KNone) False st) = st" if "r = Inr True"
      using "3.IH"(1) [OF c ev [symmetric] that TrueI] "3.prems" sb by simp
    show ?thesis
    proof (cases r)
      case (Inr b)
      with c ev sb ih show ?thesis by (cases b) (auto split: prod.splits sum.splits)
    qed (use c ev sb in simp)
  next
    case el
    with "3.IH"(2) [OF el] "3.prems" show ?thesis by (auto split: prod.splits sum.splits)
  next
    case fe
    show ?thesis
    proof (cases "cond_node st bi")
      case (CCond opr vs x)
      show ?thesis
      proof (cases "process_sentence t pl (Some (node_str (value_at vs 1) @ ''|raw''))")
        case (Inr v)
        have "opr = OpIn \<Longrightarrow> snd (eval_each t pl (node_str (value_at vs 0)) v cs (for_in_keys v) [] st) = st"
          using "3.IH"(3) [OF fe CCond refl refl Inr] "3.prems" by blast
        with fe CCond Inr show ?thesis by (auto simp: Let_def split: prod.splits sum.splits)
      qed (use fe CCond in \<open>simp add: Let_def\<close>)
    qed (use fe in simp_all)
  next
    case ot
    then show ?thesis by (auto split: sum.splits)
  qed
next
  case (5 t pl key vl cs n ns acc st)
  then show ?case by (auto split: prod.splits sum.splits)
qed auto

text \<open>
  C27: a template without an opening brace renders to itself with the blank-line
  removal applied, whatever the payload: it is not returned unchanged when it has
  blank or whitespace-only lines or CR LF line endings.
\<close>

theorem render_plain_text:
  assumes "CHR ''{'' \<notin> set tpl"
  shows "render t tpl pl = Some (Inr (strip_blank_lines tpl))"
proof -
  have sc: "scan_directives tpl = []" using match_all_no_brace [OF assms] by (simp add: scan_directives_def)
  show ?thesis
  proof (cases "tpl = []")
    case True
    then show ?thesis
      by (simp add: render_def compile_blocs_def scan_directives_def match_all_end build_Nil flush_def
                    frame_init_def blocs_of_def run_compiled_def strip_blank_lines_def)
  next
    case False
    then show ?thesis
      by (simp add: render_def compile_blocs_def sc build_Nil flush_def frame_init_def blocs_of_def
                    run_compiled_def push_target_def push_slot_def empty_bloc_def html_bloc_def
                    js_substring_def)
  qed
qed

theorem render_plain_text_witness:
  "render (new_tangular (\<lambda>_ _ _. Inr JUndef)) ''a\<newline>\<newline>b'' (JObj []) = Some (Inr ''a\<newline>b'')"
  using render_plain_text [of "''a\<newline>\<newline>b''" "new_tangular (\<lambda>_ _ _. Inr JUndef)" "JObj []"]
  by (simp add: strip_blank_lines_def is_line_term_def is_js_space_def)

text \<open>
  C28: an IF, ELSE IF, ELSE sibling chain whose conditions evaluate without error
  renders exactly the children of the first true branch, or the ELSE children when
  none is true.
\<close>

theorem if_chain_exclusive:
  assumes "nth_opt st 0 = Some c1" "nth_opt st 1 = Some c2"
    and "eval_cond t pl c1 = (Inr b1, c1)" "eval_cond t pl c2 = (Inr b2, c2)"
    and "eval_blocs t pl cs1 ([], KNone) False st = (Inr (s1, KNone), st)"
    and "eval_blocs t pl cs2 ([], KNone) False st = (Inr (s2, KNone), st)"
    and "eval_blocs t pl cs3 ([], KNone) False st = (Inr (s3, KNone), st)"
  shows "eval_blocs t pl [Bloc KIf cs1 (Some (ICond 0)) False, Bloc KElseIf cs2 (Some (ICond 1)) False,
                          Bloc KElse cs3 None False] ([], KNone) False st =
         (Inr (if b1 then s1 else if b2 then s2 else s3, KNone), st)"
  using assms by (cases b1; cases b2) (simp_all add: cond_node_ICond store_back_same)

theorem if_chain_exclusive_witness:
  "eval_blocs (new_tangular (\<lambda>_ _ _. Inr JUndef)) (JObj [(''b'', JBool True)])
     [Bloc KIf [Bloc KNone [] (Some (IText ''X'')) True] (Some (ICond 0)) False,
      Bloc KElseIf [Bloc KNone [] (Some (IText ''Y'')) True] (Some (ICond 1)) False,
      Bloc KElse [Bloc KNone [] (Some (IText ''Z'')) True] None False] ([], KNone) False [CStr ''a'', CStr ''b''] =
   (Inr (''Y'', KNone), [CStr ''a'', CStr ''b''])"
proof -
  let ?t = "new_tangular (\<lambda>_ _ _. Inr JUndef)" and ?pl = "JObj [(''b'', JBool True)]"
  have a: "eval_cond ?t ?pl (CStr ''a'') = (Inr False, CStr ''a'')"
    by (simp add: process_instruction_def eval_text_simps)
  have b: "eval_cond ?t ?pl (CStr ''b'') = (Inr True, CStr ''b'')"
    by (simp add: process_instruction_def eval_text_simps)
  show ?thesis
    using if_chain_exclusive [OF _ _ a b, of "[CStr ''a'', CStr ''b'']"
            "[Bloc KNone [] (Some (IText ''X'')) True]" "''X''"
            "[Bloc KNone [] (Some (IText ''Y'')) True]" "''Y''"
            "[Bloc KNone [] (Some (IText ''Z'')) True]" "''Z''"]
    by (simp add: nth_opt_def)
qed

text \<open>
  C29: a loop whose body never breaks renders the concatenation of the bodies of its
  iterations, in the order of the keys.
\<close>

theorem foreach_concat:
  assumes "\<forall>n \<in> set ns. eval_blocs t (each_scope pl key value n) cs ([], KNone) False st = (Inr (f n, g n), st)
                          \<and> g n \<noteq> KBreak"
  shows "eval_each t pl key value cs ns acc st = (Inr (acc @ concat (map f ns)), st)"
  using assms by (induction ns arbitrary: acc) auto

theorem foreach_concat_witness:
  "eval_each (new_tangular (\<lambda>_ _ _. Inr JUndef)) (JObj []) ''m'' (JArr [JStr ''p'', JStr ''q''])
     [Bloc KNone [] (Some (IText ''m'')) False] [''0'', ''1''] [] [] = (Inr ''pq'', [])"
proof -
  let ?t = "new_tangular (\<lambda>_ _ _. Inr JUndef)" and ?v = "JArr [JStr ''p'', JStr ''q'']"
  let ?f = "\<lambda>n. if n = ''0'' then ''p'' else ''q''"
  have "\<forall>n \<in> set [''0'', ''1'']. eval_blocs ?t (each_scope (JObj []) ''m'' ?v n)
          [Bloc KNone [] (Some (IText ''m'')) False] ([], KNone) False [] = (Inr (?f n, KNone), []) \<and> KNone \<noteq> KBreak"
    by (simp add: eval_text_simps)
  from foreach_concat [OF this] show ?thesis by simp
qed

text \<open>
  C30: when the body of iteration \<open>k\<close> ends with a break signal, the loop renders the
  bodies of iterations \<open>0\<close> to \<open>k\<close> and runs no further iteration.
\<close>

theorem foreach_break:
  assumes "k < length ns"
    and "\<forall>n \<in> set (take k ns). eval_blocs t (each_scope pl key value n) cs ([], KNone) False st = (Inr (f n, g n), st)
                                \<and> g n \<noteq> KBreak"
    and "eval_blocs t (each_scope pl key value (ns ! k)) cs ([], KNone) False st = (Inr (f (ns ! k), KBreak), st)"
  shows "eval_each t pl key value cs ns acc st = (Inr (acc @ concat (map f (take (Suc k) ns))), st)"
  using assms
proof (induction ns arbitrary: acc k)
  case (Cons n ns)
  then show ?case by (cases k) auto
qed simp

theorem foreach_break_witness:
  "eval_each (new_tangular (\<lambda>_ _ _. Inr JUndef)) (JObj []) ''m'' (JArr [JStr ''p'', JStr ''q''])
     [Bloc KNone [] (Some (IText ''m'')) False, Bloc KBreak [] None False] [''0'', ''1''] [] [] = (Inr ''p'', [])"
proof -
  let ?t = "new_tangular (\<lambda>_ _ _. Inr JUndef)" and ?v = "JArr [JStr ''p'', JStr ''q'']"
  let ?cs = "[Bloc KNone [] (Some (IText ''m'')) False, Bloc KBreak [] None False]"
  have h: "eval_blocs ?t (each_scope (JObj []) ''m'' ?v ([''0'', ''1''] ! 0)) ?cs ([], KNone) False [] =
           (Inr ((\<lambda>_. ''p'') ([''0'', ''1''] ! 0), KBreak), [])"
    by (simp add: eval_text_simps)
  have "eval_each ?t (JObj []) ''m'' ?v ?cs [''0'', ''1''] [] [] =
        (Inr ([] @ concat (map (\<lambda>_. ''p'') (take (Suc 0) [''0'', ''1'']))), [])"
    by (rule foreach_break [where g = "\<lambda>_. KNone"]) (use h in simp_all)
  then show ?thesis by simp
qed

lemma compile_else_if_chain:
  "compile_blocs ''{{if a===1}}X{{else if a===2}}Y{{else}}Z{{fi}}'' =
    Some (Inr ([Bloc KIf [Bloc KNone [] (Some (IText ''X'')) True] (Some (ICond 0)) False,
                Bloc KElseIf [Bloc KNone [] (Some (IText ''Y'')) True] (Some (ICond 1)) False,
                Bloc KElse [Bloc KNone [] (Some (IText ''Z'')) True] None False],
               [CInstr \<lparr>leftValue = Some ''a'', rightValue = Some ''1'', ioperator = OpEqEqEq, iindex = 1\<rparr>,
                CInstr \<lparr>leftValue = Some ''a'', rightValue = Some ''2'', ioperator = OpEqEqEq, iindex = 1\<rparr>]))"
proof -
  have sc: "scan_directives ''{{if a===1}}X{{else if a===2}}Y{{else}}Z{{fi}}'' =
            [(0, ''{{if a===1}}''), (13, ''{{else if a===2}}''), (31, ''{{else}}''), (40, ''{{fi}}'')]"
    by (simp add: scan_directives_def match_all.simps [of "''{{if a===1}}X{{else if a===2}}Y{{else}}Z{{fi}}''"]
                  find_close.simps look_ok_def ends_close_def is_line_term_def)
  have s: "sentence_of ''{{if a===1}}'' = ''if '' @ ''a===1''"
          "sentence_of ''{{else if a===2}}'' = ''else if'' @ '' a===2''"
          "sentence_of ''{{else}}'' = ''else''" "sentence_of ''{{fi}}'' = ''fi''"
    by (simp_all add: sentence_of_def tangular_trim_def js_substring_def js_trim_def is_js_space_def)
  have p: "process_condition_build (unspace ''a===1'') =
            Some (CInstr \<lparr>leftValue = Some ''a'', rightValue = Some ''1'', ioperator = OpEqEqEq, iindex = 1\<rparr>)"
          "process_condition_build (unspace '' a===2'') =
            Some (CInstr \<lparr>leftValue = Some ''a'', rightValue = Some ''2'', ioperator = OpEqEqEq, iindex = 1\<rparr>)"
    using comparison_parse [of "''===''" "''a''" "''1''"] comparison_parse [of "''===''" "''a''" "''2''"]
    by (simp_all add: unspace_def is_js_space_def plain_char_def is_cmp_char_def promote_def op_of_char_def)
  show ?thesis
    by (simp add: p compile_blocs_def sc build_if_open [OF s(1)] build_elseif [OF s(2)] build_else [OF s(3)]
                  build_close [of "''{{fi}}''"] s(4) build_eval_simps)
qed

text \<open>
  C31: a \<open>continue\<close> marker in a loop body ends the iteration and not the loop: the
  loop renders as if the body stopped just before the marker, whatever follows it.
\<close>

theorem foreach_continue:
  "eval_each t pl key vl (pre @ Bloc KContinue cs bi h # post) ns acc st = eval_each t pl key vl pre ns acc st"
proof (induction ns arbitrary: acc st)
  case (Cons n ns)
  then show ?case by (simp add: eval_blocs_marker split: prod.splits sum.splits)
qed simp

text \<open>
  C36: a \<open>continue\<close> or \<open>break\<close> marker in the top-level list, outside any loop,
  ends the rendering of the whole template: the compiled closure returns what the
  blocks before the marker render, and the blocks after it are never evaluated.
\<close>

theorem toplevel_signal_truncates:
  assumes "m = KContinue \<or> m = KBreak"
  shows "run_compiled t pl (pre @ Bloc m cs bi h # post, st) = run_compiled t pl (pre, st)"
  using eval_blocs_marker [OF assms, of t pl pre cs bi h post "([], KNone)" False st]
  by (simp add: run_compiled_def split: prod.splits sum.splits)

theorem toplevel_signal_truncates_witness:
  "case compile_blocs ''A{{break}}B'' of
     Some (Inr c) \<Rightarrow>
       fst c = [Bloc KNone [] (Some (IText ''A'')) True] @
               Bloc KBreak [] None False # [Bloc KNone [] (Some (IText ''B'')) True] \<and>
       (KBreak = KContinue \<or> KBreak = KBreak) \<and>
       fst (run_compiled (new_tangular (\<lambda>_ _ _. Inr JUndef)) (JObj []) c) = Inr ''A''
   | _ \<Rightarrow> False"
proof -
  have sc: "scan_directives ''A{{break}}B'' = [(1, ''{{break}}'')]"
    by (simp add: scan_directives_def match_all.simps [of "''A{{break}}B''"] find_close.simps
                  look_ok_def ends_close_def is_line_term_def)
  have s: "sentence_of ''{{break}}'' = ''break''"
    by (simp add: sentence_of_def tangular_trim_def js_substring_def js_trim_def is_js_space_def)
  have c: "compile_blocs ''A{{break}}B'' =
    Some (Inr ([Bloc KNone [] (Some (IText ''A'')) True, Bloc KBreak [] None False,
                Bloc KNone [] (Some (IText ''B'')) True], []))"
    by (simp add: compile_blocs_def sc build_break [OF s] build_eval_simps)
  have r: "run_compiled (new_tangular (\<lambda>_ _ _. Inr JUndef)) (JObj [])
             ([Bloc KNone [] (Some (IText ''A'')) True] @ Bloc KBreak [] None False #
              [Bloc KNone [] (Some (IText ''B'')) True], []) =
           run_compiled (new_tangular (\<lambda>_ _ _. Inr JUndef)) (JObj []) ([Bloc KNone [] (Some (IText ''A'')) True], [])"
    by (rule toplevel_signal_truncates) simp
  show ?thesis
    using r by (simp add: c run_compiled_def strip_blank_lines_def is_line_term_def is_js_space_def)
qed

text \<open>
  C33: the compiled closure keeps its condition store between calls; when no stored
  condition is a NONE node, a call leaves the store as it found it, so a later call
  with any payload returns what a call on the freshly compiled template returns. The
  order in which one compiled template is rendered against several payloads then does
  not matter.
\<close>

theorem repeated_call_independent:
  assumes "list_all none_free (snd c)"
  shows "fst (run_compiled t pl2 (fst c, snd (run_compiled t pl1 c))) = fst (run_compiled t pl2 c)"
proof -
  have "snd (run_compiled t pl1 c) = snd c"
    using eval_store_read_only(1) [OF assms, of t pl1 "fst c" "([], KNone)" False]
    by (auto simp: run_compiled_def split: prod.splits sum.splits)
  then show ?thesis by simp
qed

theorem repeated_call_independent_witness:
  "case compile_blocs ''{{if a===1}}X{{else if a===2}}Y{{else}}Z{{fi}}'' of
     Some (Inr c) \<Rightarrow>
       list_all none_free (snd c) \<and>
       fst (run_compiled (new_tangular (\<lambda>_ _ _. Inr JUndef)) (JObj [(''b'', JNum 2)])
              (fst c, snd (run_compiled (new_tangular (\<lambda>_ _ _. Inr JUndef)) (JObj [(''a'', JNum 1)]) c))) =
         fst (run_compiled (new_tangular (\<lambda>_ _ _. Inr JUndef)) (JObj [(''b'', JNum 2)]) c)
   | _ \<Rightarrow> False"
proof -
  obtain bs st where c: "compile_blocs ''{{if a===1}}X{{else if a===2}}Y{{else}}Z{{fi}}'' = Some (Inr (bs, st))"
    and nf: "list_all none_free st"
    using compile_else_if_chain by fastforce
  show ?thesis
    using repeated_call_independent [of "(bs, st)" "new_tangular (\<lambda>_ _ _. Inr JUndef)" "JObj [(''b'', JNum 2)]"
                                        "JObj [(''a'', JNum 1)]"] c nf
    by simp
qed

lemma compile_p_f:
  "compile_blocs ''<p>{{f}}</p>'' =
     Some (Inr ([Bloc KNone [] (Some (IText ''<p>'')) True, Bloc KNone [] (Some (IText ''f'')) False,
                 Bloc KNone [] (Some (IText ''</p>'')) True], []))"
proof -
  have sc: "scan_directives ''<p>{{f}}</p>'' = [(3, ''{{f}}'')]"
    by (simp add: scan_directives_def match_all.simps [of "''<p>{{f}}</p>''"] find_close.simps
                  look_ok_def ends_close_def is_line_term_def)
  have s: "sentence_of ''{{f}}'' = ''f''"
    by (simp add: sentence_of_def tangular_trim_def js_substring_def js_trim_def is_js_space_def)
  have k: "\<not> has_private_key ''f''"
    by (simp add: keyword_simps)
  show ?thesis
    by (simp add: compile_blocs_def sc build_text s k unspace_def is_js_space_def build_eval_simps)
qed

text \<open>
  C39: an exception thrown by a helper reaches the caller of \<open>render\<close> as it was
  thrown: the text rendered before it is dropped and no expression text or offset is
  attached to it.
\<close>

theorem helper_error_propagates:
  assumes "helpers t ''f'' = Some h" "\<not> truthy (js_get pl ''f'')" "h (JStr []) [] = Inl e"
  shows "render t ''<p>{{f}}</p>'' pl = Some (Inl e)"
  using assms
  by (simp add: render_def compile_p_f run_compiled_def text_of_def process_sentence_def pipe_keys_def
                stage_plain plain_name_def is_quote_def)

theorem helper_error_propagates_witness:
  "render (register ''f'' (\<lambda>_ _. Inl (Thrown ''boom'')) (new_tangular (\<lambda>_ _ _. Inr JUndef))) ''<p>{{f}}</p>'' (JObj []) =
   Some (Inl (Thrown ''boom''))"
  by (rule helper_error_propagates) simp_all

section \<open>Repeated calls of a compiled template\<close>

text \<open>
  Every evaluation only consumes NONE values: an entry holding a NONE condition with at
  most \<open>m\<close> values still holds one after any evaluation.
\<close>

lemma none_le_update: "j \<noteq> n \<Longrightarrow> none_le (st[j := c]) n m = none_le st n m"
  by (simp add: none_le_def nth_opt_def)

lemma eval_cond_none: "snd (eval_cond t pl (CCond OpNone vs k)) = CCond OpNone (tl vs) k"
  by (cases vs) simp_all

lemma store_back_none_le:
  assumes "none_le st n m"
  shows "none_le (store_back st bi (snd (eval_cond t pl (cond_node st bi)))) n m"
proof (cases "bi = Some (ICond n)")
  case True
  from assms obtain vs k where c: "nth_opt st n = Some (CCond OpNone vs k)" "length vs \<le> m"
    by (auto simp: none_le_def split: option.splits cnode.splits operator.splits)
  then show ?thesis
    using True nth_opt_Some [OF c(1)] by (simp add: store_back_def cond_node_def eval_cond_none none_le_def nth_opt_def)
next
  case False
  show ?thesis
  proof (cases bi)
    case (Some b)
    with False assms show ?thesis
      by (cases b) (simp_all add: store_back_def none_le_update)
  qed (use assms in \<open>simp add: store_back_def\<close>)
qed

lemma eval_none_le:
  "none_le st n m \<Longrightarrow> none_le (snd (eval_blocs t pl bs acc lr st)) n m"
  "none_le st n m \<Longrightarrow> none_le (snd (eval_bloc t pl b lr st)) n m"
  "none_le st n m \<Longrightarrow> none_le (snd (eval_each t pl key vl cs ns acc' st)) n m"
proof (induction t pl bs acc lr st and t pl b lr st and t pl key vl cs ns acc' st
       rule: eval_blocs_eval_bloc_eval_each.induct)
  case (2 t pl b bs acc lr st)
  then show ?case by (auto split: prod.splits sum.splits)
next
  case (3 t pl k cs bi h lr st)
  obtain r c' where ev: "eval_cond t pl (cond_node st bi) = (r, c')" by fastforce
  have s1: "none_le (store_back st bi c') n m"
    using store_back_none_le [OF "3.prems", of bi t pl] ev by simp
  consider (c) "k = KIf \<or> k = KElseIf \<and> \<not> lr"
    | (el) "\<not> (k = KIf \<or> k = KElseIf \<and> \<not> lr)" "k \<noteq> KElseIf" "k = KElse" "\<not> lr"
    | (fe) "\<not> (k = KIf \<or> k = KElseIf \<and> \<not> lr)" "k \<noteq> KElseIf" "k \<noteq> KElse" "k = KForeach \<or> k = KFor"
    | (ot) "\<not> (k = KIf \<or> k = KElseIf \<and> \<not> lr)" "\<not> (k = KElse \<and> \<not> lr)" "\<not> (k = KForeach \<or> k = KFor)"
    by blast
  then show ?case
  proof cases
    case c
    have ih: "none_le (snd (eval_blocs t pl cs ([], KNone) False (store_back st bi c'))) n m" if "r = Inr True"
      using "3.IH"(1) [OF c ev [symmetric] that TrueI] s1 by simp
    show ?thesis
    proof (cases r)
      case (Inr b)
      with c ev s1 ih show ?thesis by (cases b) (auto split: prod.splits sum.splits)
    qed (use c ev s1 in simp)
  next
    case el
    with "3.IH"(2) [OF el] "3.prems" show ?thesis by (auto split: prod.splits sum.splits)
  next
    case fe
    show ?thesis
    proof (cases "cond_node st bi")
      case (CCond opr vs x)
      show ?thesis
      proof (cases "process_sentence t pl (Some (node_str (value_at vs 1) @ ''|raw''))")
        case (Inr v)
        have "opr = OpIn \<Longrightarrow> none_le (snd (eval_each t pl (node_str (value_at vs 0)) v cs (for_in_keys v) [] st)) n m"
          using "3.IH"(3) [OF fe CCond refl refl Inr] "3.prems" by blast
        with fe CCond Inr "3.prems" show ?thesis by (auto simp: Let_def split: prod.splits sum.splits)
      qed (use fe CCond "3.prems" in \<open>simp add: Let_def\<close>)
    qed (use fe "3.prems" in simp_all)
  next
    case ot
    then show ?thesis using "3.prems" by (auto split: sum.splits)
  qed
next
  case (5 t pl key vl cs n' ns acc st)
  then show ?case by (auto split: prod.splits sum.splits)
qed auto

lemma run_compiled_store: "snd (run_compiled t pl c) = snd (eval_blocs t pl (fst c) ([], KNone) False (snd c))"
  by (simp add: run_compiled_def split: prod.splits sum.splits)

lemma eval_text_prefix:
  "list_all is_text pre \<Longrightarrow>
   \<exists>a'. eval_blocs t pl (pre @ bs) (a, KNone) lr st = eval_blocs t pl bs (a', KNone) lr st"
proof (induction pre arbitrary: a)
  case (Cons p pre)
  then obtain s where p: "p = Bloc KNone [] (Some (IText s)) True" by (cases p rule: is_text.cases) auto
  obtain a' where "eval_blocs t pl (pre @ bs) (a @ s, KNone) lr st = eval_blocs t pl bs (a', KNone) lr st"
    using Cons by auto
  then show ?case using p by auto
qed auto

lemma first_if_call:
  assumes "fst c = pre @ Bloc KIf cs (Some (ICond n)) False # bs" "list_all is_text pre" "none_le (snd c) n m"
  shows "none_le (snd (run_compiled t pl c)) n (m - 1) \<and> (m = 0 \<longrightarrow> isl (fst (run_compiled t pl c)))"
proof -
  obtain a' where pfx: "eval_blocs t pl (fst c) ([], KNone) False (snd c) =
      eval_blocs t pl (Bloc KIf cs (Some (ICond n)) False # bs) (a', KNone) False (snd c)"
    using eval_text_prefix [OF assms(2), of t pl "Bloc KIf cs (Some (ICond n)) False # bs" "[]" False "snd c"] assms(1)
    by auto
  obtain vs k where c: "nth_opt (snd c) n = Some (CCond OpNone vs k)" "length vs \<le> m"
    using assms(3) by (auto simp: none_le_def split: option.splits cnode.splits operator.splits)
  have cn: "cond_node (snd c) (Some (ICond n)) = CCond OpNone vs k" using c(1) by (simp add: cond_node_def)
  let ?st1 = "store_back (snd c) (Some (ICond n)) (CCond OpNone (tl vs) k)"
  have s1: "none_le ?st1 n (m - 1)"
    using c nth_opt_Some [OF c(1)] by (simp add: store_back_def none_le_def nth_opt_def)
  have b: "snd (eval_bloc t pl (Bloc KIf cs (Some (ICond n)) False) False (snd c)) =
           snd (case fst (eval_cond t pl (CCond OpNone vs k)) of
                  Inl e \<Rightarrow> (Inl e, ?st1)
                | Inr r \<Rightarrow> if r then (case eval_blocs t pl cs ([], KNone) False ?st1 of
                                     (Inl e, st') \<Rightarrow> (Inl e, st') | (Inr (s, op), st') \<Rightarrow> (Inr (s, op, True), st'))
                           else (Inr ([], KNone, False), ?st1))"
    using cn eval_cond_none [of t pl vs k] by (cases "eval_cond t pl (CCond OpNone vs k)") (simp split: sum.splits)
  have "none_le (snd (eval_bloc t pl (Bloc KIf cs (Some (ICond n)) False) False (snd c))) n (m - 1)"
    unfolding b using s1 eval_none_le(1) [OF s1, of t pl cs "([], KNone)" False] by (auto split: sum.splits prod.splits)
  then have st: "none_le (snd (run_compiled t pl c)) n (m - 1)"
    using pfx eval_none_le(1) by (auto simp: run_compiled_store split: prod.splits sum.splits)
  have "m = 0 \<Longrightarrow> isl (fst (run_compiled t pl c))"
    using c cn pfx by (simp add: run_compiled_def)
  with st show ?thesis by blast
qed

text \<open>
  C35: a compiled template whose first directive block, after literal text only, is an
  \<open>if\<close> on a NONE condition with \<open>j\<close> values left fails: whatever the payload, the
  call that follows \<open>j\<close> calls of the same closure throws, since every call consumes
  one value of that condition.
\<close>

theorem none_if_eventually_fails:
  assumes "fst c = pre @ Bloc KIf cs (Some (ICond n)) False # bs" "list_all is_text pre" "none_le (snd c) n j"
  shows "isl (fst (run_compiled t pl (fst c, repeat_calls t pl c j)))"
proof -
  have inv: "none_le (repeat_calls t pl c i) n (j - i)" for i
  proof (induction i)
    case 0
    then show ?case using assms(3) by simp
  next
    case (Suc i)
    then show ?case
      using first_if_call [of "(fst c, repeat_calls t pl c i)" pre cs n bs "j - i" t pl] assms(1,2) by (simp add: diff_Suc)
  qed
  show ?thesis using first_if_call [of "(fst c, repeat_calls t pl c j)" pre cs n bs 0 t pl] inv [of j] assms(1,2) by simp
qed

theorem none_if_eventually_fails_witness:
  "case compile_blocs ''<p>{{if (a)}}X{{fi}}'' of
     Some (Inr c) \<Rightarrow>
       fst c = [Bloc KNone [] (Some (IText ''<p>'')) True] @
               [Bloc KIf [Bloc KNone [] (Some (IText ''X'')) True] (Some (ICond 0)) False] \<and>
       list_all is_text [Bloc KNone [] (Some (IText ''<p>'')) True] \<and>
       none_le (snd c) 0 1 \<and>
       isl (fst (run_compiled (new_tangular (\<lambda>_ _ _. Inr JUndef)) (JObj [(''a'', JBool True)])
                  (fst c, repeat_calls (new_tangular (\<lambda>_ _ _. Inr JUndef)) (JObj [(''a'', JBool True)]) c 1)))
   | _ \<Rightarrow> False"
proof -
  have sc: "scan_directives ''<p>{{if (a)}}X{{fi}}'' = [(3, ''{{if (a)}}''), (14, ''{{fi}}'')]"
    by (simp add: scan_directives_def match_all.simps [of "''<p>{{if (a)}}X{{fi}}''"] find_close.simps
                  look_ok_def ends_close_def is_line_term_def)
  have s: "sentence_of ''{{if (a)}}'' = ''if (a)''" "sentence_of ''{{fi}}'' = ''fi''"
    by (simp_all add: sentence_of_def tangular_trim_def js_substring_def js_trim_def is_js_space_def)
  have p: "process_condition_build ''(a)'' = Some (CCond OpNone [CStr ''a''] 0)"
    by (simp add: process_condition_build_def cond_build.simps pstate_init_def finish_def Let_def
                  is_cmp_char_def)
  have c: "compile_blocs ''<p>{{if (a)}}X{{fi}}'' =
    Some (Inr ([Bloc KNone [] (Some (IText ''<p>'')) True,
                Bloc KIf [Bloc KNone [] (Some (IText ''X'')) True] (Some (ICond 0)) False],
               [CCond OpNone [CStr ''a''] 0]))"
    by (simp add: compile_blocs_def sc s build_if_open [of "''{{if (a)}}''" "''(a)''"] p
                  unspace_def is_js_space_def build_eval_simps)
  let ?c = "([Bloc KNone [] (Some (IText ''<p>'')) True,
              Bloc KIf [Bloc KNone [] (Some (IText ''X'')) True] (Some (ICond 0)) False],
             [CCond OpNone [CStr ''a''] 0])"
  have nf: "none_le (snd ?c) 0 1" by (simp add: none_le_def nth_opt_def)
  show ?thesis
    using none_if_eventually_fails [of ?c "[Bloc KNone [] (Some (IText ''<p>'')) True]"
                                       "[Bloc KNone [] (Some (IText ''X'')) True]" 0 "[]" 1
                                       "new_tangular (\<lambda>_ _ _. Inr JUndef)" "JObj [(''a'', JBool True)]"] nf
    by (simp add: c)
qed

end
