(* ===== verification/Spec2Isabelle.thy ===== *)
theory Spec2Isabelle
  imports Block_Eval
begin

text \<open>
  \<^bold>\<open>A verification library for the template engine of \<open>src/lib/tangular.ts\<close>.\<close>

  \<^bold>\<open>The program.\<close> The class \<open>Tangular\<close> compiles a template with \<open>{{ ... }}\<close>
  directives into a tree of blocks and renders the tree against a payload. Its
  parts and the way they call each other:
  \<^item> the helper registry (\<open>_helpers\<close>, the constructor's \<open>raw\<close> and \<open>encode\<close>
    helpers, \<open>register\<close>);
  \<^item> the directive scanner (\<open>compile\<close>'s \<open>matchAll\<close>) and the whitespace passes
    \<open>_trim\<close> and \<open>_unspace\<close>;
  \<^item> the block builder \<open>_processBuildPrivateKey\<close>, which consumes the scanner's
    matches, calls itself for nested directives, and calls the expression parser
    \<open>_processConditionBuild\<close> or \<open>_processForeachBuild\<close> on each header;
  \<^item> the block evaluator \<open>_processBloc\<close> / \<open>_processEach\<close>, which calls the
    condition evaluator \<open>_processCondition\<close> / \<open>_processInstruction\<close> and the
    sentence evaluator \<open>_processSentence\<close>, which calls the helpers;
  \<^item> the entry points \<open>compile\<close> (whose closure removes blank lines), \<open>render\<close> and
    \<open>renderAsync\<close>.

  \<^bold>\<open>Theories.\<close> One theory per part, in the order of the imports:
  \<^item> \<open>Tangular_Base\<close>: the prelude: the error type \<open>err\<close>, JavaScript whitespace,
    \<open>substring\<close>, \<open>indexOf\<close>, \<open>split\<close>, \<open>trim\<close>, \<open>Number::toString\<close> on integers
    (\<open>num_to_string\<close>), and list lemmas shared by the parts.
  \<^item> \<open>Js_Value\<close>: JavaScript values (\<open>jsval\<close>), truthiness, \<open>String(x)\<close>, loose and
    strict equality, relational comparison, property reads, \<open>for ... in\<close> key order,
    object spread.
  \<^item> \<open>Helper_Registry\<close>: the record \<open>tangular\<close> (the \<open>_helpers\<close> map and the host
    functions a payload may hold), \<open>new_tangular\<close>, \<open>register\<close>, the HTML escape, and
    \<open>html_unescape\<close>, a reference decoder of its four entities (not in the source).
  \<^item> \<open>Sentence_Eval\<close>: \<open>process_sentence\<close> = \<open>_processSentence\<close>: pipe split, implicit
    \<open>encode\<close>, literals, paths, calls, the fall back to helpers.
  \<^item> \<open>Cond_Parser\<close>: \<open>cond_build\<close> = the loop of \<open>_processConditionBuild\<close> with its
    locals as the record \<open>pstate\<close>, and \<open>foreach_build\<close> = \<open>_processForeachBuild\<close>.
  \<^item> \<open>Cond_Eval\<close>: \<open>process_instruction\<close> and \<open>eval_cond\<close>; evaluation returns the
    condition tree after it, since a NONE node is consumed by \<open>values.shift()\<close>;
    \<open>cond_sem\<close> is the specification's store-free short-circuit semantics it refines.
  \<^item> \<open>Directive_Scanner\<close>: \<open>collapse\<close>/\<open>tangular_trim\<close> = \<open>_trim\<close>, \<open>unspace\<close>,
    \<open>match_all\<close>/\<open>scan_directives\<close> = the \<open>matchAll\<close> iterator, \<open>has_private_key\<close>,
    \<open>strip_blank_lines\<close> = the closure's \<open>replace\<close>.
  \<^item> \<open>Block_Builder\<close>: \<open>build\<close> = \<open>_processBuildPrivateKey\<close> with the frame record
    \<open>frame\<close> for \<open>tracking\<close>, \<open>blocsObject\<close>, \<open>blocObject\<close>; \<open>compile_blocs\<close>.
  \<^item> \<open>Block_Eval\<close>: \<open>eval_blocs\<close>/\<open>eval_bloc\<close>/\<open>eval_each\<close> = \<open>_processBloc\<close>, its
    callback and \<open>_processEach\<close>; \<open>run_compiled\<close> = the compiled closure;
    \<open>render\<close> and \<open>render_async\<close> = \<open>renderAsync\<close>, equal to \<open>render\<close> since the
    closure ignores its \<open>enableAsync\<close> flag (\<open>render_async_is_render\<close>).
  \<^item> this theory: the registry of the demonstration code (\<open>demo_registry\<close>,
    \<open>demo_registry2\<close>) with its helpers \<open>f\<close>, \<open>currency\<close> and \<open>plus\<close>, the helper
    chain and the numeric formatting of the specification.

  \<^bold>\<open>State and effects.\<close> Errors are values of \<open>err + 'a\<close> (\<open>Inl\<close> a thrown
  \<open>TypeError\<close>). Objects the code mutates after sharing them are modelled explicitly:
  the builder's pushed-then-mutated \<open>blocObject\<close> is a \<open>Cur\<close> slot resolved when the
  variable is rebound, and parsed conditions live in a store (a list indexed by
  allocation order) that every evaluation threads, so that blocks pushed twice share
  their condition and a compiled template carries the state its previous render
  left. The matches are a list that the builder consumes and a nested activation
  returns the rest of, as the shared iterator does.

  \<^bold>\<open>Loops and termination.\<close> The parser loop and the builder can fail to return
  (\<open>_processConditionBuild\<close> loops on a header ending in \<open>(\<close>), so both are
  \<open>partial_function (option)\<close> with \<open>None\<close> for not returning; their totality is
  proved where it holds (\<open>condition_build_terminates\<close>, \<open>compile_terminates\<close>) and
  the divergence where it does not (\<open>condition_build_diverges\<close>). The scanner is a
  \<open>function\<close> with a measure on the position; the evaluators are structural or use a
  lexicographic measure on the block tree and the keys left. No fuel is used.

  \<^bold>\<open>Properties.\<close> Each theory ends with its claims (\<open>C1\<close> to \<open>C40\<close>): the
  length bounds and the lossless round trip of the HTML escape (\<open>Helper_Registry\<close>);
  the functional behaviour of output expressions and helpers (\<open>Sentence_Eval\<close>); the
  parser on comparisons, its refinement of the specification's left-nested reading of
  \<open>&\<close>/\<open>|\<close> chains (\<open>lnest\<close>), and the inputs it misparses or loops on
  (\<open>Cond_Parser\<close>); short-circuit, destructive NONE evaluation, read-only trees and
  the refinement of the reference semantics \<open>cond_sem\<close> (\<open>Cond_Eval\<close>); the
  scanner's invariant, the equivalence of the \<open>_trim\<close> scan with its run-by-run
  reference \<open>collapse_ref\<close>, and the blank-line removal (\<open>Directive_Scanner\<close>); the
  builder's handling of \<open>else\<close>, \<open>break\<close> and unclosed blocks, and its termination,
  proved by strong induction on the matches left (\<open>Block_Builder\<close>); and the round
  trip of plain text, branch exclusivity, loop order, \<open>break\<close> and \<open>continue\<close> in
  loops, a signal outside any loop ending the whole template (\<open>eval_blocs_marker\<close>),
  and the reuse of a compiled template (\<open>Block_Eval\<close>). Repeated
  calls of one compiled closure are \<open>repeat_calls\<close>: calls are independent when the
  store holds no NONE condition, and otherwise every call consumes a value, so a
  template that opens with a parenthesised \<open>if\<close> throws on a call bounded by the
  values left (a liveness property: failure is reached, whatever the payload). The
  root theory adds the helper chain and the numeric formatting of the specification.

  \<^bold>\<open>Not modelled.\<close> Numbers are unbounded integers (the code never computes with
  fractions; they stand for JavaScript numbers exactly up to \<open>2\<^sup>5\<^sup>3\<close>, and the
  exponent form \<open>num_to_string\<close> gives from \<open>10\<^sup>2\<^sup>1\<close> on is the one JavaScript
  prints when the number has at most 15 significant digits; the demonstration's \<open>currency\<close> helper is modelled on integers, and
  its fractional example amount and a fractional \<open>decimals\<close> string are outside the
  model); strings are lists of UTF-16 code units below 256, so Unicode
  whitespace beyond Latin-1 is absent; objects have no prototype chain
  (\<open>toString\<close>, \<open>constructor\<close> are not properties) and are compared structurally,
  which is exact for the values a payload path can reach only when no two distinct
  objects are compared; helpers are total functions without side effects; the
  field \<open>process.lastOperator\<close> of \<open>_processBloc\<close> is written and never read, so
  the model has no counterpart for it; the demonstration's console output is not
  modelled. Its two template renders are not
  stated as theorems: the second's payload holds the fraction \<open>1.2654548548\<close>, and
  the first template (39 lines, 29 directives) is not stated as one theorem; its pieces
  are covered by the claims on the parts it uses (nested conditions, else-if chains, loops with continue and
  break, helper calls, the NONE condition of its parenthesised first header).
  \<open>renderAsync\<close> is declared to return a Promise but returns the string itself; the
  model returns the string, as the code does.
\<close>

section \<open>The helpers of the demonstration code\<close>

text \<open>
  \<open>Number.parseInt(s, 10)\<close>: leading white space, an optional sign and the longest
  run of digits; \<open>None\<close> is \<open>NaN\<close>. A missing argument is \<open>undefined\<close>, which
  \<open>parseInt\<close> reads as the string \<open>"undefined"\<close>.
\<close>

definition js_parse_int :: "string \<Rightarrow> int option" where
  "js_parse_int s =
     (let t = dropWhile is_js_space s;
          neg = (t \<noteq> [] \<and> hd t = CHR ''-'');
          r = (if t \<noteq> [] \<and> (hd t = CHR ''-'' \<or> hd t = CHR ''+'') then tl t else t);
          ds = takeWhile is_digit r
      in if ds = [] then None else Some ((if neg then -1 else 1) * int (dec_value ds)))"

text \<open>
  The \<open>plus\<close> helper registered by the demonstration code:
  \<open>(value || 0) + (Number.parseInt(count, 10) || 1)\<close>. The left operand is never
  \<open>undefined\<close> or \<open>null\<close>, so \<open>+\<close> is a string concatenation when its primitive
  is a string and an integer sum otherwise.
\<close>

definition plus_helper :: helper where
  "plus_helper value args =
     (let base = (if truthy value then value else JNum 0);
          count = (case nth_opt args 0 of None \<Rightarrow> ''undefined'' | Some c \<Rightarrow> c);
          n = (case js_parse_int count of Some k \<Rightarrow> if k \<noteq> 0 then k else 1 | None \<Rightarrow> 1)
      in Inr (case to_primitive base of
                JStr s \<Rightarrow> JStr (s @ num_to_string n)
              | p \<Rightarrow> JNum (case to_number p of Some k \<Rightarrow> k + n | None \<Rightarrow> n)))"

text \<open>
  The helper \<open>f\<close> the demonstration code registers first: it logs its arguments (not
  modelled) and returns \<open>'hello'\<close>.
\<close>

definition f_helper :: helper where
  "f_helper value args = Inr (JStr ''hello'')"

text \<open>
  The \<open>currency\<close> helper: \<open>value.toFixed(decimals || 0)\<close> on the integers of the
  model. \<open>decimals\<close> is the argument string, converted by \<open>ToNumber\<close> (\<open>NaN\<close> reads
  as 0); \<open>toFixed\<close> throws a \<open>RangeError\<close> outside \<open>[0, 100]\<close>, returns
  \<open>ToString(x)\<close>, with no decimals, when \<open>|x| \<ge> 10\<^sup>2\<^sup>1\<close>, and reading
  \<open>toFixed\<close> of \<open>undefined\<close>, \<open>null\<close> or a non-number fails.
\<close>

definition currency_helper :: helper where
  "currency_helper value args =
     (let d = (case nth_opt args 0 of
                 None \<Rightarrow> 0
               | Some s \<Rightarrow> if s = [] then 0 else (case str_to_number s of Some k \<Rightarrow> k | None \<Rightarrow> 0))
      in case value of
           JUndef \<Rightarrow> Inl (TypeError ''Cannot read properties of undefined (reading 'toFixed')'')
         | JNull \<Rightarrow> Inl (TypeError ''Cannot read properties of null (reading 'toFixed')'')
         | JNum i \<Rightarrow>
             (if d < 0 \<or> 100 < d then Inl (Thrown ''RangeError: toFixed() digits argument must be between 0 and 100'')
              else if 10 ^ 21 \<le> \<bar>i\<bar> then Inr (JStr (num_to_string i))
              else Inr (JStr (int_to_dec i @ (if d = 0 then [] else CHR ''.'' # replicate (nat d) CHR ''0''))))
         | _ \<Rightarrow> Inl (TypeError ''value.toFixed is not a function''))"

text \<open>
  The registry of the demonstration: \<open>new Tangular()\<close> with \<open>f\<close>, then, after the first
  template, \<open>currency\<close> and \<open>plus\<close>.
\<close>

definition demo_registry :: "(nat \<Rightarrow> helper) \<Rightarrow> tangular" where
  "demo_registry fs = register ''f'' f_helper (new_tangular fs)"

definition demo_registry2 :: "tangular \<Rightarrow> tangular" where
  "demo_registry2 t = register ''plus'' plus_helper (register ''currency'' currency_helper t)"

section \<open>Properties that span the components\<close>

text \<open>
  C1: the helper chain of the specification, \<open>count | plus | plus(2) | plus | plus(3)\<close>
  with no \<open>count\<close> in the payload, threads the accumulator through every stage:
  \<open>0 \<rightarrow> 1 \<rightarrow> 3 \<rightarrow> 4 \<rightarrow> 7\<close>.
\<close>

theorem helper_chain:
  assumes "builtins_intact t" "helpers t ''count'' = None" "helpers t ''plus'' = Some plus_helper"
    and "\<not> truthy (js_get pl ''count'')" "\<not> truthy (js_get pl ''plus'')" "\<not> truthy (js_get pl ''encode'')"
  shows "process_sentence t pl (Some ''count|plus|plus(2)|plus|plus(3)'') = Inr (JNum 7)"
proof -
  have keys: "pipe_keys ''count|plus|plus(2)|plus|plus(3)'' = [''count'', ''plus'', ''plus(2)'', ''plus'', ''plus(3)'', ''encode'']"
    by (simp add: pipe_keys_def js_split_Cons_other)
  have plain: "plain_name ''count''" "plain_name ''plus''"
    by (simp_all add: plain_name_def is_quote_def)
  have r: "\<not> truthy (resolve_path pl (js_split CHR ''.'' ''plus''))"
    using assms(5) by (simp add: resolve_single_truthy)
  have call2: "stage t pl v ''plus(2)'' = plus_helper v [''2'']" for v
    using stage_call [where name = "''plus''" and args = "''2''" and t = t and pl = pl and acc = v] r assms(3)
    by (simp add: is_quote_def Let_def)
  have call3: "stage t pl v ''plus(3)'' = plus_helper v [''3'']" for v
    using stage_call [where name = "''plus''" and args = "''3''" and t = t and pl = pl and acc = v] r assms(3)
    by (simp add: is_quote_def Let_def)
  show ?thesis
    using assms plain
    by (simp add: process_sentence_def keys sentence_eval_simps call2 call3 builtins_intact_def
                  plus_helper_def js_parse_int_def to_primitive_def is_object_def dec_value_def
                  digit_val_def is_digit_def is_js_space_def)
qed

theorem helper_chain_witness:
  "process_sentence (register ''plus'' plus_helper (new_tangular (\<lambda>_ _ _. Inr JUndef)))
     (JObj [(''amount'', JNum 1), (''name'', JStr ''<b>world</b>'')])
     (Some ''count|plus|plus(2)|plus|plus(3)'') = Inr (JNum 7)"
  by (rule helper_chain) (simp_all add: builtins_intact_def new_tangular_def)

text \<open>
  C40: the numeric-formatting example of the specification on an integer amount:
  \<open>amount | currency(2)\<close> gives the amount with two decimals below \<open>10\<^sup>2\<^sup>1\<close>
  and the exponent form of \<open>String(amount)\<close> from \<open>10\<^sup>2\<^sup>1\<close> on, except for a zero
  amount, which the sentence evaluator reads as missing, so that \<open>currency\<close>
  receives \<open>undefined\<close> and throws.
\<close>

theorem currency_formatting:
  assumes "builtins_intact t" "helpers t ''amount'' = None" "helpers t ''currency'' = Some currency_helper"
    and "js_get pl ''amount'' = JNum i" "\<not> truthy (js_get pl ''currency'')" "\<not> truthy (js_get pl ''encode'')"
  shows "process_sentence t pl (Some ''amount|currency(2)'') =
           (if i = 0 then Inl (TypeError ''Cannot read properties of undefined (reading 'toFixed')'')
            else if 10 ^ 21 \<le> \<bar>i\<bar> then Inr (JStr (num_to_string i))
            else Inr (JStr (int_to_dec i @ ''.00'')))"
proof -
  have keys: "pipe_keys ''amount|currency(2)'' = [''amount'', ''currency(2)'', ''encode'']"
    by (simp add: pipe_keys_def js_split_Cons_other)
  have r: "\<not> truthy (resolve_path pl (js_split CHR ''.'' ''currency''))"
    using assms(5) by (simp add: resolve_single_truthy)
  have call: "stage t pl v ''currency(2)'' = currency_helper v [''2'']" for v
    using stage_call [where name = "''currency''" and args = "''2''" and t = t and pl = pl and acc = v] r assms(3)
    by (simp add: is_quote_def Let_def)
  have amt: "stage t pl (JStr []) ''amount'' = (if i = 0 then Inr JUndef else Inr (JNum i))"
    using assms(2,4) by (simp add: stage_plain plain_name_def is_quote_def)
  have esc: "html_escape (int_to_dec i @ ''.00'') = int_to_dec i @ ''.00''"
    by (rule html_escape_plain) (auto dest: int_to_dec_plain simp: is_digit_def simp del: nat_to_dec.simps)
  have esc2: "html_escape (num_to_string i) = num_to_string i"
    by (rule html_escape_plain) (auto dest: num_to_string_plain simp del: nat_to_dec.simps)
  show ?thesis
    using assms(1,6) esc esc2
    by (simp del: nat_to_dec.simps num_to_string_small add: numeral_2_eq_2 process_sentence_def keys amt call currency_helper_def str_to_number_def js_trim_def
                  is_js_space_def is_digit_def dec_value_def digit_val_def nth_opt_def stage_encode
                  builtins_intact_def encode_helper_eq)
qed

theorem currency_formatting_witness:
  "process_sentence (demo_registry2 (demo_registry (\<lambda>_ _ _. Inr JUndef))) (JObj [(''amount'', JNum 3)])
     (Some ''amount|currency(2)'') = Inr (JStr ''3.00'')"
proof -
  have three: "int_to_dec 3 = ''3''"
    by code_simp
  show ?thesis
    using currency_formatting [of "demo_registry2 (demo_registry (\<lambda>_ _ _. Inr JUndef))" "JObj [(''amount'', JNum 3)]" 3]
    by (simp add: demo_registry2_def demo_registry_def builtins_intact_def new_tangular_def three)
qed

end
